theory Spec2Isabelle
  imports Complex_Main
begin

section \<open>Data model\<close>

text \<open>
  The sampler of \<^verbatim>\<open>gretel_synthetics/actgan/data_sampler.py\<close>; \<^verbatim>\<open>output_info\<close> is a list of
  span lists, one per original column.
\<close>

text \<open>
  Modelled from the spec: the class \<^verbatim>\<open>SpanInfo\<close> is declared in
  \<^verbatim>\<open>gretel_synthetics.actgan.structures\<close>, which is not among the sources. A span descriptor
  carries \<^verbatim>\<open>dim\<close>, the width of a sub-block of the encoded matrix, and \<^verbatim>\<open>activation_fn\<close>, its
  activation tag; these are the two fields the sampler reads. A width is a natural number.
\<close>

record SpanInfo =
  dim :: nat
  activation_fn :: string

text \<open>The exceptions the sampler's code can raise.\<close>

datatype error = AssertionError | IndexError | ValueError

text \<open>
  The encoded training matrix is a two-dimensional numeric array: its shape and its cells.
  Cells are read only below the shape; every read of the model checks the bounds the way
  numpy does (an index raises, a slice truncates). Cell values are finite reals.
\<close>

record array2d =
  nrows :: nat
  ncols :: nat
  cell :: "nat \<Rightarrow> nat \<Rightarrow> real"

text \<open>
  Values computed by the sampler (frequencies, probabilities, cumulative sums) are IEEE
  doubles: a finite value or one of the three special values. Zeros carry no sign.
\<close>

datatype npfloat = Fin real | PosInf | NegInf | NaN

text \<open>
  The results of the floating-point primitives are parameters of the model, so that nothing
  is assumed about rounding, overflow or the order in which numpy adds the entries of an
  array: \<open>fl_add\<close>, \<open>fl_div\<close> and \<open>fl_log\<close> are the double-precision \<^verbatim>\<open>+\<close>, \<^verbatim>\<open>/\<close> and
  \<^verbatim>\<open>np.log\<close>; \<open>fl_sum\<close> is \<^verbatim>\<open>np.sum\<close> of a one-dimensional array; \<open>fl_sum_axis0\<close> is one entry
  of \<^verbatim>\<open>np.sum(a, axis=0)\<close>, the sum of one column of finite cells.
\<close>

record float_ops =
  fl_add :: "npfloat \<Rightarrow> npfloat \<Rightarrow> npfloat"
  fl_div :: "npfloat \<Rightarrow> npfloat \<Rightarrow> npfloat"
  fl_log :: "npfloat \<Rightarrow> npfloat"
  fl_sum :: "npfloat list \<Rightarrow> npfloat"
  fl_sum_axis0 :: "real list \<Rightarrow> npfloat"

text \<open>
  Addition of doubles. The one fact of IEEE arithmetic the model builds in: adding the
  double \<open>0.0\<close> returns the other operand unchanged, whatever it is.
\<close>

definition np_add :: "float_ops \<Rightarrow> npfloat \<Rightarrow> npfloat \<Rightarrow> npfloat" where
  "np_add ops x y = (if y = Fin 0 then x else fl_add ops x y)"

text \<open>Comparison of a double with a finite draw is exact; a NaN is greater than nothing.\<close>

fun np_gt :: "npfloat \<Rightarrow> real \<Rightarrow> bool" where
  "np_gt (Fin a) r = (r < a)"
| "np_gt PosInf r = True"
| "np_gt NegInf r = False"
| "np_gt NaN r = False"

text \<open>\<^verbatim>\<open>cumsum\<close>: the first entry as it is, every later entry the previous sum plus the entry.\<close>

fun cumsum_from :: "float_ops \<Rightarrow> npfloat \<Rightarrow> npfloat list \<Rightarrow> npfloat list" where
  "cumsum_from ops a [] = []"
| "cumsum_from ops a (x # xs) = np_add ops a x # cumsum_from ops (np_add ops a x) xs"

definition cumsum :: "float_ops \<Rightarrow> npfloat list \<Rightarrow> npfloat list" where
  "cumsum ops xs = (case xs of [] \<Rightarrow> [] | x # rest \<Rightarrow> x # cumsum_from ops x rest)"

text \<open>
  The arithmetic without rounding: reals extended by the special values, with the IEEE
  rules for them. It is the instance the examples are evaluated with.
\<close>

fun exact_add :: "npfloat \<Rightarrow> npfloat \<Rightarrow> npfloat" where
  "exact_add (Fin a) (Fin b) = Fin (a + b)"
| "exact_add NaN y = NaN"
| "exact_add x NaN = NaN"
| "exact_add PosInf NegInf = NaN"
| "exact_add NegInf PosInf = NaN"
| "exact_add PosInf y = PosInf"
| "exact_add x PosInf = PosInf"
| "exact_add NegInf y = NegInf"
| "exact_add x NegInf = NegInf"

fun exact_div :: "npfloat \<Rightarrow> npfloat \<Rightarrow> npfloat" where
  "exact_div (Fin a) (Fin b) =
     (if b \<noteq> 0 then Fin (a / b)
      else if 0 < a then PosInf else if a < 0 then NegInf else NaN)"
| "exact_div NaN y = NaN"
| "exact_div x NaN = NaN"
| "exact_div (Fin a) y = Fin 0"
| "exact_div PosInf (Fin b) = (if 0 \<le> b then PosInf else NegInf)"
| "exact_div NegInf (Fin b) = (if 0 \<le> b then NegInf else PosInf)"
| "exact_div x y = NaN"

fun exact_log :: "npfloat \<Rightarrow> npfloat" where
  "exact_log (Fin x) = (if 0 < x then Fin (ln x) else if x = 0 then NegInf else NaN)"
| "exact_log PosInf = PosInf"
| "exact_log NegInf = NaN"
| "exact_log NaN = NaN"

definition exact_ops :: float_ops where
  "exact_ops =
     \<lparr>fl_add = exact_add, fl_div = exact_div, fl_log = exact_log,
      fl_sum = (\<lambda>xs. foldl exact_add (Fin 0) xs),
      fl_sum_axis0 = (\<lambda>xs. Fin (sum_list xs))\<rparr>"

text \<open>
  \<^verbatim>\<open>argmax\<close> returns the first index of the largest entry and raises on an empty
  sequence. On booleans (\<open>False < True\<close>) it is the first \<open>True\<close>, or 0 when there is none.
\<close>

fun argmax_loop :: "'a::linorder list \<Rightarrow> nat \<Rightarrow> nat \<Rightarrow> 'a \<Rightarrow> nat" where
  "argmax_loop [] i best_i best = best_i"
| "argmax_loop (x # xs) i best_i best =
     (if best < x then argmax_loop xs (i + 1) i x else argmax_loop xs (i + 1) best_i best)"

definition np_argmax :: "'a::linorder list \<Rightarrow> error + nat" where
  "np_argmax xs = (case xs of [] \<Rightarrow> Inl ValueError | x # rest \<Rightarrow> Inr (argmax_loop rest 1 0 x))"

text \<open>
  The sampler object: the fields \<^verbatim>\<open>__init__\<close> assigns. The three offset and count arrays
  are \<^verbatim>\<open>int32\<close> arrays; their entries are at most the matrix's column count and are
  modelled as naturals. \<open>category_prob_width\<close> is the second dimension of the padded
  probability matrix (\<^verbatim>\<open>max_category\<close>), which the array keeps also when it has no row.
\<close>

record DataSampler =
  data :: array2d
  discrete_column_matrix_st :: "nat list"
  rid_by_cat_cols :: "nat list list list"
  discrete_column_cond_st :: "nat list"
  discrete_column_n_category :: "nat list"
  discrete_column_category_prob :: "npfloat list list"
  category_prob_width :: nat
  n_discrete_columns :: nat
  n_categories :: nat

section \<open>Construction\<close>

definition is_discrete_column :: "SpanInfo list \<Rightarrow> bool" where
  "is_discrete_column span_info =
     (length span_info = 1 \<and> activation_fn (span_info ! 0) = ''softmax'')"

text \<open>\<^verbatim>\<open>np.nonzero(data[:, k])[0]\<close>: the rows whose cell in column \<open>k\<close> is not zero.\<close>

definition nonzero_col :: "array2d \<Rightarrow> nat \<Rightarrow> error + nat list" where
  "nonzero_col d k =
     (if k < ncols d then Inr (filter (\<lambda>i. cell d i k \<noteq> 0) [0..<nrows d])
      else Inl IndexError)"

fun rid_by_cat_loop :: "array2d \<Rightarrow> nat \<Rightarrow> nat list \<Rightarrow> nat list list \<Rightarrow> error + nat list list" where
  "rid_by_cat_loop d st [] rid_by_cat = Inr rid_by_cat"
| "rid_by_cat_loop d st (j # js) rid_by_cat =
     (case nonzero_col d (st + j) of
        Inl e \<Rightarrow> Inl e
      | Inr r \<Rightarrow> rid_by_cat_loop d st js (rid_by_cat @ [r]))"

fun rid_loop :: "array2d \<Rightarrow> SpanInfo list list \<Rightarrow> nat \<Rightarrow> nat list list list
    \<Rightarrow> error + (nat \<times> nat list list list)" where
  "rid_loop d [] st rids = Inr (st, rids)"
| "rid_loop d (span_info_list # rest) st rids =
     (if is_discrete_column span_info_list then
        (case rid_by_cat_loop d st [0..<dim (span_info_list ! 0)] [] of
           Inl e \<Rightarrow> Inl e
         | Inr rid_by_cat \<Rightarrow> rid_loop d rest (st + dim (span_info_list ! 0)) (rids @ [rid_by_cat]))
      else rid_loop d rest (st + sum_list (map dim span_info_list)) rids)"

text \<open>\<^verbatim>\<open>np.sum(data[:, st:ed], axis=0)\<close>: a slice stops at the matrix's last column.\<close>

definition category_freq :: "float_ops \<Rightarrow> array2d \<Rightarrow> nat \<Rightarrow> nat \<Rightarrow> npfloat list" where
  "category_freq ops d st ed =
     map (\<lambda>k. fl_sum_axis0 ops (map (\<lambda>i. cell d i k) [0..<nrows d])) [st..<min ed (ncols d)]"

text \<open>
  The lines from \<^verbatim>\<open>if log_frequency\<close> to \<^verbatim>\<open>category_prob = ...\<close>: the optional smoothing
  \<^verbatim>\<open>np.log(category_freq + 1)\<close> and the division by \<^verbatim>\<open>np.sum(category_freq)\<close>.
\<close>

definition category_prob_of :: "float_ops \<Rightarrow> bool \<Rightarrow> npfloat list \<Rightarrow> npfloat list" where
  "category_prob_of ops log_frequency freq =
     (let category_freq =
            (if log_frequency then map (\<lambda>f. fl_log ops (np_add ops f (Fin 1))) freq else freq)
      in map (\<lambda>f. fl_div ops f (fl_sum ops category_freq)) category_freq)"

text \<open>
  \<^verbatim>\<open>row[:n] = vals\<close>: the values must have the slice's length, or be a single value that
  is broadcast; anything else raises.
\<close>

definition assign_prefix :: "npfloat list \<Rightarrow> nat \<Rightarrow> npfloat list \<Rightarrow> error + npfloat list" where
  "assign_prefix row n vals =
     (let m = min n (length row) in
      if length vals = m then Inr (vals @ drop m row)
      else if length vals = 1 then Inr (replicate m (vals ! 0) @ drop m row)
      else Inl ValueError)"

fun prob_loop :: "float_ops \<Rightarrow> array2d \<Rightarrow> bool \<Rightarrow> SpanInfo list list \<Rightarrow> nat \<Rightarrow> nat \<Rightarrow> nat
    \<Rightarrow> nat list \<times> nat list \<times> npfloat list list
    \<Rightarrow> error + (nat list \<times> nat list \<times> npfloat list list)" where
  "prob_loop ops d log_frequency [] st current_id current_cond_st arrs = Inr arrs"
| "prob_loop ops d log_frequency (span_info_list # rest) st current_id current_cond_st (cst, ncat, prob) =
     (if is_discrete_column span_info_list then
        (let n = dim (span_info_list ! 0);
             category_prob = category_prob_of ops log_frequency (category_freq ops d st (st + n))
         in if current_id < length prob \<and> current_id < length cst \<and> current_id < length ncat then
              (case assign_prefix (prob ! current_id) n category_prob of
                 Inl e \<Rightarrow> Inl e
               | Inr row \<Rightarrow>
                   prob_loop ops d log_frequency rest (st + n) (current_id + 1) (current_cond_st + n)
                     (cst[current_id := current_cond_st], ncat[current_id := n],
                      prob[current_id := row]))
            else Inl IndexError)
      else prob_loop ops d log_frequency rest (st + sum_list (map dim span_info_list))
             current_id current_cond_st (cst, ncat, prob))"

definition discrete_dims :: "SpanInfo list list \<Rightarrow> nat list" where
  "discrete_dims output_info =
     map (\<lambda>span_info_list. dim (span_info_list ! 0)) (filter is_discrete_column output_info)"

text \<open>\<^verbatim>\<open>max([...], default=0)\<close> over the widths of the discrete columns.\<close>

definition max_category :: "SpanInfo list list \<Rightarrow> nat" where
  "max_category output_info =
     (if discrete_dims output_info = [] then 0 else Max (set (discrete_dims output_info)))"

definition init :: "float_ops \<Rightarrow> array2d \<Rightarrow> SpanInfo list list \<Rightarrow> bool \<Rightarrow> error + DataSampler" where
  "init ops d output_info log_frequency =
     (let n_disc = sum_list (map (\<lambda>span_info_list. 1) (filter is_discrete_column output_info))
      in case rid_loop d output_info 0 [] of
           Inl e \<Rightarrow> Inl e
         | Inr (st, rids) \<Rightarrow>
             if st \<noteq> ncols d then Inl AssertionError
             else
               (case prob_loop ops d log_frequency output_info 0 0 0
                          (replicate n_disc 0, replicate n_disc 0,
                           replicate n_disc (replicate (max_category output_info) (Fin 0))) of
                     Inl e \<Rightarrow> Inl e
                   | Inr (cst, ncat, prob) \<Rightarrow>
                       Inr \<lparr>data = d,
                            discrete_column_matrix_st = replicate n_disc 0,
                            rid_by_cat_cols = rids,
                            discrete_column_cond_st = cst,
                            discrete_column_n_category = ncat,
                            discrete_column_category_prob = prob,
                            category_prob_width = max_category output_info,
                            n_discrete_columns = n_disc,
                            n_categories = sum_list (discrete_dims output_info)\<rparr>))"

section \<open>Sampling\<close>

text \<open>
  Randomness is an explicit argument: a draw is a function from the position in the batch
  to the value drawn there. A draw of \<^verbatim>\<open>np.random.choice(np.arange(n), batch)\<close> or
  \<^verbatim>\<open>np.random.randint(0, n)\<close> lies below \<open>n\<close>, a draw of \<^verbatim>\<open>np.random.rand\<close> in \<open>[0, 1)\<close>,
  and \<^verbatim>\<open>np.random.choice(a)\<close> returns \<open>a ! k\<close> for a drawn position \<open>k\<close> below the length
  of \<open>a\<close>; the theorems assume draws in these ranges. A draw from an empty range raises,
  except that \<^verbatim>\<open>np.random.randint(m, size=0)\<close> returns no draw.
\<close>

fun collect :: "(error + 'a) list \<Rightarrow> error + 'a list" where
  "collect [] = Inr []"
| "collect (x # xs) =
     (case x of
        Inl e \<Rightarrow> Inl e
      | Inr v \<Rightarrow> (case collect xs of Inl e \<Rightarrow> Inl e | Inr vs \<Rightarrow> Inr (v # vs)))"

definition random_choice_prob_index :: "float_ops \<Rightarrow> DataSampler \<Rightarrow> nat list \<Rightarrow> (nat \<Rightarrow> real) \<Rightarrow> error + nat list" where
  "random_choice_prob_index ops s discrete_column_id rand =
     (if list_ex (\<lambda>c. length (discrete_column_category_prob s) \<le> c) discrete_column_id
      then Inl IndexError
      else if category_prob_width s = 0 then Inl ValueError
      else collect
             (map (\<lambda>i. np_argmax
                         (map (\<lambda>x. np_gt x (rand i))
                            (cumsum ops (discrete_column_category_prob s ! (discrete_column_id ! i)))))
                [0..<length discrete_column_id]))"

text \<open>
  \<^verbatim>\<open>a = np.zeros((batch, width)); a[np.arange(batch), idx] = 1\<close> for an index vector of
  \<open>batch\<close> entries.
\<close>

definition set_ones :: "nat \<Rightarrow> nat \<Rightarrow> nat list \<Rightarrow> error + real list list" where
  "set_ones batch width idx =
     (if length idx \<noteq> batch then Inl IndexError
      else if list_ex (\<lambda>k. width \<le> k) idx then Inl IndexError
      else Inr (map (\<lambda>i. (replicate width 0)[idx ! i := 1]) [0..<batch]))"

definition sample_condvec :: "float_ops \<Rightarrow> DataSampler \<Rightarrow> nat \<Rightarrow> (nat \<Rightarrow> nat) \<Rightarrow> (nat \<Rightarrow> real)
    \<Rightarrow> error + (real list list \<times> real list list \<times> nat list \<times> nat list) option" where
  "sample_condvec ops s batch choice rand =
     (if n_discrete_columns s = 0 then Inr None
      else
        (let discrete_column_id = map choice [0..<batch] in
         case set_ones batch (n_discrete_columns s) discrete_column_id of
           Inl e \<Rightarrow> Inl e
         | Inr mask_rows \<Rightarrow>
             (case random_choice_prob_index ops s discrete_column_id rand of
                Inl e \<Rightarrow> Inl e
              | Inr category_id_in_col \<Rightarrow>
                  if list_ex (\<lambda>c. length (discrete_column_cond_st s) \<le> c) discrete_column_id
                  then Inl IndexError
                  else
                    (let category_id =
                           map (\<lambda>i. discrete_column_cond_st s ! (discrete_column_id ! i)
                                      + category_id_in_col ! i) [0..<batch]
                     in case set_ones batch (n_categories s) category_id of
                          Inl e \<Rightarrow> Inl e
                        | Inr cond \<Rightarrow>
                            Inr (Some (cond, mask_rows, discrete_column_id, category_id_in_col))))))"

fun original_condvec_loop :: "DataSampler \<Rightarrow> (nat \<Rightarrow> nat) \<Rightarrow> (nat \<Rightarrow> nat) \<Rightarrow> nat list
    \<Rightarrow> real list list \<Rightarrow> error + real list list" where
  "original_condvec_loop s row_draw col_draw [] cond = Inr cond"
| "original_condvec_loop s row_draw col_draw (i # rest) cond =
     (if nrows (data s) = 0 then Inl ValueError
      else
        (let row_idx = row_draw i; col_idx = col_draw i in
         if length (discrete_column_matrix_st s) \<le> col_idx
            \<or> length (discrete_column_n_category s) \<le> col_idx
            \<or> nrows (data s) \<le> row_idx
         then Inl IndexError
         else
           (let matrix_st = discrete_column_matrix_st s ! col_idx;
                matrix_ed = matrix_st + discrete_column_n_category s ! col_idx
            in case np_argmax (map (cell (data s) row_idx)
                                 [matrix_st..<min matrix_ed (ncols (data s))]) of
                 Inl e \<Rightarrow> Inl e
               | Inr pick \<Rightarrow>
                   if length (discrete_column_cond_st s) \<le> col_idx \<or> length cond \<le> i
                      \<or> length (cond ! i) \<le> pick + discrete_column_cond_st s ! col_idx
                   then Inl IndexError
                   else original_condvec_loop s row_draw col_draw rest
                          (cond[i := (cond ! i)[pick + discrete_column_cond_st s ! col_idx := 1]]))))"

definition sample_original_condvec :: "DataSampler \<Rightarrow> nat \<Rightarrow> (nat \<Rightarrow> nat) \<Rightarrow> (nat \<Rightarrow> nat)
    \<Rightarrow> error + real list list option" where
  "sample_original_condvec s batch row_draw col_draw =
     (if n_discrete_columns s = 0 then Inr None
      else
        (case original_condvec_loop s row_draw col_draw [0..<batch]
                (replicate batch (replicate (n_categories s) 0)) of
           Inl e \<Rightarrow> Inl e
         | Inr cond \<Rightarrow> Inr (Some cond)))"

text \<open>\<^verbatim>\<open>data[idx]\<close>: the rows of the matrix at the given row indices.\<close>

definition row_of :: "array2d \<Rightarrow> nat \<Rightarrow> real list" where
  "row_of d i = map (cell d i) [0..<ncols d]"

definition take_rows :: "array2d \<Rightarrow> nat list \<Rightarrow> error + real list list" where
  "take_rows d idx =
     (if list_ex (\<lambda>i. nrows d \<le> i) idx then Inl IndexError else Inr (map (row_of d) idx))"

fun sample_data_loop :: "DataSampler \<Rightarrow> (nat \<Rightarrow> nat) \<Rightarrow> (nat \<times> nat) list \<Rightarrow> nat \<Rightarrow> nat list
    \<Rightarrow> error + nat list" where
  "sample_data_loop s pick [] i idx = Inr idx"
| "sample_data_loop s pick ((c, opt) # rest) i idx =
     (if length (rid_by_cat_cols s) \<le> c then Inl IndexError
      else if length (rid_by_cat_cols s ! c) \<le> opt then Inl IndexError
      else if rid_by_cat_cols s ! c ! opt = [] then Inl ValueError
      else sample_data_loop s pick rest (i + 1) (idx @ [rid_by_cat_cols s ! c ! opt ! pick i]))"

definition sample_data :: "DataSampler \<Rightarrow> nat \<Rightarrow> nat list option \<Rightarrow> nat list \<Rightarrow> (nat \<Rightarrow> nat)
    \<Rightarrow> error + real list list" where
  "sample_data s n col opt pick =
     (case col of
        None \<Rightarrow>
          if 0 < n \<and> nrows (data s) = 0 then Inl ValueError
          else take_rows (data s) (map pick [0..<n])
      | Some cs \<Rightarrow>
          (case sample_data_loop s pick (zip cs opt) 0 [] of
             Inl e \<Rightarrow> Inl e
           | Inr idx \<Rightarrow> take_rows (data s) idx))"

definition dim_cond_vec :: "DataSampler \<Rightarrow> nat" where
  "dim_cond_vec s = n_categories s"

text \<open>
  Modelled from the spec: the class \<^verbatim>\<open>ColumnIdInfo\<close> is declared in
  \<^verbatim>\<open>gretel_synthetics.actgan.structures\<close>, which is not among the sources. A condition
  descriptor carries a discrete-column id and a category-value id; these are the two
  fields the sampler reads.
\<close>

record ColumnIdInfo =
  discrete_column_id :: nat
  value_id :: nat

definition generate_cond_from_condition_column_info :: "DataSampler \<Rightarrow> ColumnIdInfo \<Rightarrow> nat
    \<Rightarrow> error + real list list" where
  "generate_cond_from_condition_column_info s condition_info batch_size =
     (if length (discrete_column_matrix_st s) \<le> discrete_column_id condition_info
      then Inl IndexError
      else
        (let pos = discrete_column_matrix_st s ! discrete_column_id condition_info
                    + value_id condition_info
         in if n_categories s \<le> pos then Inl IndexError
            else Inr (replicate batch_size ((replicate (n_categories s) 0)[pos := 1]))))"

section \<open>Notions the properties are stated with\<close>

text \<open>The sum of all span widths of a layout (the left-hand side of Invariant I1).\<close>

definition total_width :: "SpanInfo list list \<Rightarrow> nat" where
  "total_width output_info =
     sum_list (map (\<lambda>span_info_list. sum_list (map dim span_info_list)) output_info)"

text \<open>
  The value of the constructor's cursor \<^verbatim>\<open>st\<close> when it reaches each discrete column: the
  column where that discrete column's one-hot block starts in the encoded matrix.
\<close>

fun matrix_starts :: "SpanInfo list list \<Rightarrow> nat \<Rightarrow> nat list" where
  "matrix_starts [] st = []"
| "matrix_starts (span_info_list # rest) st =
     (if is_discrete_column span_info_list
      then st # matrix_starts rest (st + dim (span_info_list ! 0))
      else matrix_starts rest (st + sum_list (map dim span_info_list)))"

text \<open>
  The training rows whose entry in matrix column \<open>k\<close> is not zero, in increasing order;
  and the row index of a block of \<open>n\<close> categories starting at column \<open>st\<close>.
\<close>

definition rows_with :: "array2d \<Rightarrow> nat \<Rightarrow> nat list" where
  "rows_with d k = filter (\<lambda>i. cell d i k \<noteq> 0) [0..<nrows d]"

definition rid_of :: "array2d \<Rightarrow> nat \<Rightarrow> nat \<Rightarrow> nat list list" where
  "rid_of d st n = map (\<lambda>j. rows_with d (st + j)) [0..<n]"

text \<open>
  The block of width \<open>n\<close> starting at column \<open>st\<close> of an encoded row, its decoding by
  arg-max (the way \<^verbatim>\<open>sample_original_condvec\<close> reads a category off a row), and what it is
  for a block to be one-hot: a single 1, zeros elsewhere.
\<close>

definition block_of :: "real list \<Rightarrow> nat \<Rightarrow> nat \<Rightarrow> real list" where
  "block_of row st n = take n (drop st row)"

definition decode_block :: "real list \<Rightarrow> nat \<Rightarrow> nat \<Rightarrow> error + nat" where
  "decode_block row st n = np_argmax (block_of row st n)"

definition is_one_hot :: "real list \<Rightarrow> bool" where
  "is_one_hot xs = list_ex (\<lambda>k. xs = (replicate (length xs) 0)[k := 1]) [0..<length xs]"

text \<open>The exact sums of the matrix columns \<open>st, ..., ed - 1\<close> over all rows.\<close>

definition col_sums :: "array2d \<Rightarrow> nat \<Rightarrow> nat \<Rightarrow> real list" where
  "col_sums d st ed =
     map (\<lambda>k. sum_list (map (\<lambda>i. cell d i k) [0..<nrows d])) [st..<min ed (ncols d)]"

text \<open>
  The index \<^verbatim>\<open>argmax\<close> returns on a boolean vector: the first \<open>True\<close>, or 0 when there is
  none; and the category one draw \<open>r\<close> selects from a stored probability row.
\<close>

definition first_true :: "bool list \<Rightarrow> nat" where
  "first_true bs = (if True \<in> set bs then length (takeWhile Not bs) else 0)"

definition choice_index :: "float_ops \<Rightarrow> npfloat list \<Rightarrow> real \<Rightarrow> nat" where
  "choice_index ops row r = first_true (map (\<lambda>x. np_gt x r) (cumsum ops row))"


section \<open>Example inputs\<close>

definition softmax_span :: "nat \<Rightarrow> SpanInfo" where
  "softmax_span n = \<lparr>dim = n, activation_fn = ''softmax''\<rparr>"

definition tanh_span :: "nat \<Rightarrow> SpanInfo" where
  "tanh_span n = \<lparr>dim = n, activation_fn = ''tanh''\<rparr>"

definition matrix_of_rows :: "nat \<Rightarrow> real list list \<Rightarrow> array2d" where
  "matrix_of_rows c rows = \<lparr>nrows = length rows, ncols = c, cell = (\<lambda>i j. rows ! i ! j)\<rparr>"

text \<open>Two training rows over two discrete columns of two categories each.\<close>

definition ex_data :: array2d where
  "ex_data = matrix_of_rows 4 [[1, 0, 0, 1], [0, 1, 1, 0]]"

definition ex_layout :: "SpanInfo list list" where
  "ex_layout = [[softmax_span 2], [softmax_span 2]]"

text \<open>
  The sampler the constructor builds from them in exact arithmetic (see \<open>ex_init\<close> below).
\<close>

definition ex_sampler :: DataSampler where
  "ex_sampler =
     \<lparr>data = ex_data,
      discrete_column_matrix_st = [0, 0],
      rid_by_cat_cols = [[[0], [1]], [[1], [0]]],
      discrete_column_cond_st = [0, 2],
      discrete_column_n_category = [2, 2],
      discrete_column_category_prob = [[Fin (1 / 2), Fin (1 / 2)], [Fin (1 / 2), Fin (1 / 2)]],
      category_prob_width = 2,
      n_discrete_columns = 2,
      n_categories = 4\<rparr>"

text \<open>One discrete column of two categories; no training row has the second category.\<close>

definition ex_data_one_sided :: array2d where
  "ex_data_one_sided = matrix_of_rows 2 [[1, 0], [1, 0]]"

text \<open>An encoded matrix with two columns and no training row.\<close>

definition ex_data_empty :: array2d where
  "ex_data_empty = matrix_of_rows 2 []"

definition ex_sampler_empty :: DataSampler where
  "ex_sampler_empty =
     \<lparr>data = ex_data_empty,
      discrete_column_matrix_st = [0],
      rid_by_cat_cols = [[[], []]],
      discrete_column_cond_st = [0],
      discrete_column_n_category = [2],
      discrete_column_category_prob = [[NaN, NaN]],
      category_prob_width = 2,
      n_discrete_columns = 1,
      n_categories = 2\<rparr>"

text \<open>A layout whose second discrete column has no category.\<close>

definition ex_data_narrow :: array2d where
  "ex_data_narrow = matrix_of_rows 2 [[1, 0]]"

definition ex_layout_narrow :: "SpanInfo list list" where
  "ex_layout_narrow = [[softmax_span 2], [softmax_span 0]]"

definition ex_sampler_narrow :: DataSampler where
  "ex_sampler_narrow =
     \<lparr>data = ex_data_narrow,
      discrete_column_matrix_st = [0, 0],
      rid_by_cat_cols = [[[0], []], []],
      discrete_column_cond_st = [0, 2],
      discrete_column_n_category = [2, 0],
      discrete_column_category_prob = [[Fin 1, Fin 0], [Fin 0, Fin 0]],
      category_prob_width = 2,
      n_discrete_columns = 2,
      n_categories = 2\<rparr>"

text \<open>
  One discrete column of two categories whose first training row has both category
  entries set.
\<close>

definition ex_data_multi_hot :: array2d where
  "ex_data_multi_hot = matrix_of_rows 2 [[1, 1], [0, 1], [0, 1]]"

definition ex_sampler_multi_hot :: DataSampler where
  "ex_sampler_multi_hot =
     \<lparr>data = ex_data_multi_hot,
      discrete_column_matrix_st = [0],
      rid_by_cat_cols = [[[0], [0, 1, 2]]],
      discrete_column_cond_st = [0],
      discrete_column_n_category = [2],
      discrete_column_category_prob = [[Fin (1 / 4), Fin (3 / 4)]],
      category_prob_width = 2,
      n_discrete_columns = 1,
      n_categories = 2\<rparr>"

text \<open>One training row over a single discrete column that has no category.\<close>

definition ex_data_zero_width :: array2d where
  "ex_data_zero_width = matrix_of_rows 0 [[]]"

definition ex_sampler_zero_width :: DataSampler where
  "ex_sampler_zero_width =
     \<lparr>data = ex_data_zero_width,
      discrete_column_matrix_st = [0],
      rid_by_cat_cols = [[]],
      discrete_column_cond_st = [0],
      discrete_column_n_category = [0],
      discrete_column_category_prob = [[]],
      category_prob_width = 0,
      n_discrete_columns = 1,
      n_categories = 0\<rparr>"

section \<open>Properties of the construction\<close>

lemma discrete_width: "is_discrete_column sl \<Longrightarrow> sum_list (map dim sl) = dim (sl ! 0)"
  by (cases sl) (auto simp: is_discrete_column_def)

lemma total_width_Cons:
  "total_width (sl # rest) = sum_list (map dim sl) + total_width rest"
  by (simp add: total_width_def)

lemma discrete_dims_Cons:
  "discrete_dims (sl # rest) =
     (if is_discrete_column sl then dim (sl ! 0) # discrete_dims rest else discrete_dims rest)"
  by (simp add: discrete_dims_def)

lemma discrete_dims_Nil: "discrete_dims [] = []"
  by (simp add: discrete_dims_def)

lemma length_matrix_starts: "length (matrix_starts oi st) = length (discrete_dims oi)"
  by (induction oi arbitrary: st) (auto simp: discrete_dims_Cons discrete_dims_Nil)

lemma matrix_starts_bound:
  "j < length (discrete_dims oi) \<Longrightarrow>
     st \<le> matrix_starts oi st ! j \<and>
     matrix_starts oi st ! j + discrete_dims oi ! j \<le> st + total_width oi"
proof (induction oi arbitrary: st j)
  case Nil
  then show ?case by (simp add: discrete_dims_Nil)
next
  case (Cons sl rest)
  show ?case
  proof (cases "is_discrete_column sl")
    case True
    show ?thesis
    proof (cases j)
      case 0
      then show ?thesis using True
        by (simp add: discrete_dims_Cons total_width_Cons discrete_width)
    next
      case (Suc j')
      with Cons.prems True have "j' < length (discrete_dims rest)"
        by (simp add: discrete_dims_Cons)
      from Cons.IH[OF this, of "st + dim (sl ! 0)"] show ?thesis using True Suc
        by (simp add: discrete_dims_Cons total_width_Cons discrete_width)
    qed
  next
    case False
    with Cons.prems have "j < length (discrete_dims rest)"
      by (simp add: discrete_dims_Cons)
    from Cons.IH[OF this, of "st + sum_list (map dim sl)"] show ?thesis using False
      by (simp add: discrete_dims_Cons total_width_Cons)
  qed
qed

subsection \<open>The first loop: the row index\<close>

lemma rid_by_cat_loop_Inr:
  "list_all (\<lambda>j. st + j < ncols d) js \<Longrightarrow>
   rid_by_cat_loop d st js acc =
     Inr (acc @ map (\<lambda>j. rows_with d (st + j)) js)"
  by (induction js arbitrary: acc) (auto simp: nonzero_col_def rows_with_def)

lemma rid_by_cat_loop_Inl:
  "\<not> list_all (\<lambda>j. st + j < ncols d) js \<Longrightarrow> rid_by_cat_loop d st js acc = Inl IndexError"
  by (induction js arbitrary: acc) (auto simp: nonzero_col_def)

lemma list_all_upt_bound: "st + n \<le> (c::nat) \<Longrightarrow> list_all (\<lambda>j. st + j < c) [0..<n]"
  by (auto simp: list_all_iff)

lemma not_list_all_upt_bound: "\<not> list_all (\<lambda>j. st + j < c) [0..<n] \<Longrightarrow> (c::nat) < st + n"
  by (auto simp: list_all_iff)

lemma rid_loop_Inr:
  "st + total_width oi \<le> ncols d \<Longrightarrow>
   rid_loop d oi st rids =
     Inr (st + total_width oi,
          rids @ map (\<lambda>(ms, n). rid_of d ms n) (zip (matrix_starts oi st) (discrete_dims oi)))"
proof (induction oi arbitrary: st rids)
  case Nil
  then show ?case by (simp add: total_width_def discrete_dims_Nil)
next
  case (Cons sl rest)
  show ?case
  proof (cases "is_discrete_column sl")
    case True
    from Cons.prems True have b: "st + dim (sl ! 0) \<le> ncols d"
      and r: "(st + dim (sl ! 0)) + total_width rest \<le> ncols d"
      by (simp_all add: total_width_Cons discrete_width)
    have "rid_by_cat_loop d st [0..<dim (sl ! 0)] [] = Inr (rid_of d st (dim (sl ! 0)))"
      using rid_by_cat_loop_Inr[OF list_all_upt_bound[OF b], of "[]"]
      by (simp add: rid_of_def)
    then show ?thesis using True Cons.IH[OF r]
      by (simp add: total_width_Cons discrete_width discrete_dims_Cons)
  next
    case False
    from Cons.prems have r: "(st + sum_list (map dim sl)) + total_width rest \<le> ncols d"
      by (simp add: total_width_Cons)
    show ?thesis using False Cons.IH[OF r]
      by (simp add: total_width_Cons discrete_dims_Cons)
  qed
qed

lemma rid_loop_st:
  "rid_loop d oi st rids = Inr (st', rids') \<Longrightarrow> st' = st + total_width oi"
proof (induction oi arbitrary: st rids)
  case Nil
  then show ?case by (simp add: total_width_def)
next
  case (Cons sl rest)
  show ?case
  proof (cases "is_discrete_column sl")
    case True
    with Cons.prems obtain x where
      "rid_loop d rest (st + dim (sl ! 0)) (rids @ [x]) = Inr (st', rids')"
      by (auto split: sum.splits)
    from Cons.IH[OF this] show ?thesis using True
      by (simp add: total_width_Cons discrete_width)
  next
    case False
    with Cons.prems have "rid_loop d rest (st + sum_list (map dim sl)) rids = Inr (st', rids')"
      by simp
    from Cons.IH[OF this] show ?thesis
      by (simp add: total_width_Cons)
  qed
qed

lemma rid_loop_error:
  "rid_loop d oi st rids = Inl e \<Longrightarrow> e = IndexError \<and> ncols d < st + total_width oi"
proof (induction oi arbitrary: st rids)
  case Nil
  then show ?case by simp
next
  case (Cons sl rest)
  show ?case
  proof (cases "is_discrete_column sl")
    case True
    show ?thesis
    proof (cases "list_all (\<lambda>j. st + j < ncols d) [0..<dim (sl ! 0)]")
      case le: True
      have "rid_by_cat_loop d st [0..<dim (sl ! 0)] [] = Inr (rid_of d st (dim (sl ! 0)))"
        using rid_by_cat_loop_Inr[OF le, of "[]"] by (simp add: rid_of_def)
      with Cons.prems True
      have "rid_loop d rest (st + dim (sl ! 0)) (rids @ [rid_of d st (dim (sl ! 0))]) = Inl e"
        by simp
      from Cons.IH[OF this] show ?thesis using True
        by (simp add: total_width_Cons discrete_width)
    next
      case False
      then have "rid_by_cat_loop d st [0..<dim (sl ! 0)] [] = Inl IndexError"
        by (rule rid_by_cat_loop_Inl)
      with Cons.prems True not_list_all_upt_bound[OF False] show ?thesis
        by (simp add: total_width_Cons discrete_width)
    qed
  next
    case False
    with Cons.prems have "rid_loop d rest (st + sum_list (map dim sl)) rids = Inl e"
      by simp
    from Cons.IH[OF this] show ?thesis
      by (simp add: total_width_Cons)
  qed
qed

subsection \<open>The second loop: offsets and probabilities\<close>

lemma assign_prefix_Inr:
  "length vals = n \<Longrightarrow> n \<le> length row \<Longrightarrow> assign_prefix row n vals = Inr (vals @ drop n row)"
  by (simp add: assign_prefix_def Let_def min_def)

lemma length_category_freq: "ed \<le> ncols d \<Longrightarrow> length (category_freq ops d st ed) = ed - st"
  by (simp add: category_freq_def min_def)


lemma length_category_prob_of: "length (category_prob_of ops lf f) = length f"
  by (simp add: category_prob_of_def Let_def)

lemma prob_loop_spec:
  assumes "st + total_width oi \<le> ncols d"
    and "k + length (discrete_dims oi) \<le> length prob"
    and "length cst = length prob" and "length ncat = length prob"
    and "\<forall>i<length prob. length (prob ! i) = W"
    and "list_all (\<lambda>n. n \<le> W) (discrete_dims oi)"
  shows "\<exists>cst' ncat' prob'.
     prob_loop ops d lf oi st k cs (cst, ncat, prob) = Inr (cst', ncat', prob') \<and>
     length cst' = length prob \<and> length ncat' = length prob \<and> length prob' = length prob \<and>
     (\<forall>i<k. cst' ! i = cst ! i \<and> ncat' ! i = ncat ! i \<and> prob' ! i = prob ! i) \<and>
     (\<forall>j<length (discrete_dims oi).
        cst' ! (k + j) = cs + sum_list (take j (discrete_dims oi)) \<and>
        ncat' ! (k + j) = discrete_dims oi ! j \<and>
        prob' ! (k + j) =
          category_prob_of ops lf (category_freq ops d (matrix_starts oi st ! j)
                                 (matrix_starts oi st ! j + discrete_dims oi ! j))
          @ drop (discrete_dims oi ! j) (prob ! (k + j))) \<and>
     (\<forall>i<length prob. length (prob' ! i) = W)"
  using assms
proof (induction oi arbitrary: st k cs cst ncat prob)
  case Nil
  then show ?case by (simp add: discrete_dims_Nil)
next
  case (Cons sl rest)
  show ?case
  proof (cases "is_discrete_column sl")
    case False
    have 1: "(st + sum_list (map dim sl)) + total_width rest \<le> ncols d"
      using Cons.prems(1) by (simp add: total_width_Cons)
    have 2: "k + length (discrete_dims rest) \<le> length prob"
      using Cons.prems(2) False by (simp add: discrete_dims_Cons)
    have 3: "list_all (\<lambda>n. n \<le> W) (discrete_dims rest)"
      using Cons.prems(6) False by (simp add: discrete_dims_Cons)
    from Cons.IH[OF 1 2 Cons.prems(3) Cons.prems(4) Cons.prems(5) 3, of cs]
    show ?thesis using False by (simp add: discrete_dims_Cons)
  next
    case True
    define n where "n = dim (sl ! 0)"
    define cp where "cp = category_prob_of ops lf (category_freq ops d st (st + n))"
    define row where "row = cp @ drop n (prob ! k)"
    have dd: "discrete_dims (sl # rest) = n # discrete_dims rest"
      using True by (simp add: discrete_dims_Cons n_def)
    have ms: "matrix_starts (sl # rest) st = st # matrix_starts rest (st + n)"
      using True by (simp add: n_def)
    have k: "k < length prob" using Cons.prems(2) by (simp add: dd)
    have nW: "n \<le> W" using Cons.prems(6) by (simp add: dd)
    have stn: "st + n \<le> ncols d"
      using Cons.prems(1) True by (simp add: total_width_Cons discrete_width n_def)
    have lcp: "length cp = n"
      using stn by (simp add: cp_def length_category_prob_of length_category_freq)
    have lrow0: "length (prob ! k) = W" using Cons.prems(5) k by simp
    have asg: "assign_prefix (prob ! k) n cp = Inr row"
      using assign_prefix_Inr[OF lcp, of "prob ! k"] nW lrow0 by (simp add: row_def)
    have lrow: "length row = W" using lcp nW lrow0 by (simp add: row_def)
    have step: "prob_loop ops d lf (sl # rest) st k cs (cst, ncat, prob) =
        prob_loop ops d lf rest (st + n) (k + 1) (cs + n)
          (cst[k := cs], ncat[k := n], prob[k := row])"
      using True k Cons.prems(3) Cons.prems(4) asg
      by (simp add: n_def[symmetric] cp_def[symmetric] Let_def)
    have 1: "(st + n) + total_width rest \<le> ncols d"
      using Cons.prems(1) True by (simp add: total_width_Cons discrete_width n_def)
    have 2: "(k + 1) + length (discrete_dims rest) \<le> length (prob[k := row])"
      using Cons.prems(2) by (simp add: dd)
    have 3: "length (cst[k := cs]) = length (prob[k := row])"
      using Cons.prems(3) by simp
    have 4: "length (ncat[k := n]) = length (prob[k := row])"
      using Cons.prems(4) by simp
    have 5: "\<forall>i<length (prob[k := row]). length (prob[k := row] ! i) = W"
    proof (intro allI impI)
      fix i assume "i < length (prob[k := row])"
      then have i: "i < length prob" by simp
      show "length (prob[k := row] ! i) = W"
      proof (cases "i = k")
        case True
        then show ?thesis using i lrow by simp
      next
        case False
        then show ?thesis using i Cons.prems(5) by simp
      qed
    qed
    have 6: "list_all (\<lambda>n. n \<le> W) (discrete_dims rest)"
      using Cons.prems(6) by (simp add: dd)
    from Cons.IH[OF 1 2 3 4 5 6, of "cs + n"]
    obtain cst' ncat' prob' where
      r: "prob_loop ops d lf rest (st + n) (k + 1) (cs + n)
            (cst[k := cs], ncat[k := n], prob[k := row]) = Inr (cst', ncat', prob')"
      and len: "length cst' = length prob" "length ncat' = length prob"
               "length prob' = length prob"
      and below: "\<forall>i<k + 1. cst' ! i = cst[k := cs] ! i \<and> ncat' ! i = ncat[k := n] ! i
                     \<and> prob' ! i = prob[k := row] ! i"
      and mid: "\<forall>j<length (discrete_dims rest).
        cst' ! (k + 1 + j) = cs + n + sum_list (take j (discrete_dims rest)) \<and>
        ncat' ! (k + 1 + j) = discrete_dims rest ! j \<and>
        prob' ! (k + 1 + j) =
          category_prob_of ops lf (category_freq ops d (matrix_starts rest (st + n) ! j)
                                 (matrix_starts rest (st + n) ! j + discrete_dims rest ! j))
          @ drop (discrete_dims rest ! j) (prob[k := row] ! (k + 1 + j))"
      and rows: "\<forall>i<length prob. length (prob' ! i) = W"
      by auto
    have below': "\<forall>i<k. cst' ! i = cst ! i \<and> ncat' ! i = ncat ! i \<and> prob' ! i = prob ! i"
      using below by (simp add: nth_list_update)
    have at_k: "cst' ! k = cs \<and> ncat' ! k = n \<and> prob' ! k = row"
      using below k Cons.prems(3) Cons.prems(4) by simp
    have mid': "\<forall>j<length (discrete_dims (sl # rest)).
        cst' ! (k + j) = cs + sum_list (take j (discrete_dims (sl # rest))) \<and>
        ncat' ! (k + j) = discrete_dims (sl # rest) ! j \<and>
        prob' ! (k + j) =
          category_prob_of ops lf (category_freq ops d (matrix_starts (sl # rest) st ! j)
                                 (matrix_starts (sl # rest) st ! j + discrete_dims (sl # rest) ! j))
          @ drop (discrete_dims (sl # rest) ! j) (prob ! (k + j))"
    proof (intro allI impI)
      fix j assume j: "j < length (discrete_dims (sl # rest))"
      show "cst' ! (k + j) = cs + sum_list (take j (discrete_dims (sl # rest))) \<and>
        ncat' ! (k + j) = discrete_dims (sl # rest) ! j \<and>
        prob' ! (k + j) =
          category_prob_of ops lf (category_freq ops d (matrix_starts (sl # rest) st ! j)
                                 (matrix_starts (sl # rest) st ! j + discrete_dims (sl # rest) ! j))
          @ drop (discrete_dims (sl # rest) ! j) (prob ! (k + j))"
      proof (cases j)
        case 0
        then show ?thesis using at_k by (simp add: dd ms row_def cp_def del: matrix_starts.simps)
      next
        case (Suc j')
        with j have "j' < length (discrete_dims rest)" by (simp add: dd)
        with mid have "cst' ! (k + 1 + j') = cs + n + sum_list (take j' (discrete_dims rest)) \<and>
          ncat' ! (k + 1 + j') = discrete_dims rest ! j' \<and>
          prob' ! (k + 1 + j') =
            category_prob_of ops lf (category_freq ops d (matrix_starts rest (st + n) ! j')
                                 (matrix_starts rest (st + n) ! j' + discrete_dims rest ! j'))
            @ drop (discrete_dims rest ! j') (prob[k := row] ! (k + 1 + j'))"
          by blast
        then show ?thesis using Suc by (simp add: dd ms del: matrix_starts.simps)
      qed
    qed
    show ?thesis
      unfolding step r using len below' mid' rows by simp
  qed
qed

subsection \<open>The constructor\<close>

lemma n_disc_count:
  "sum_list (map (\<lambda>span_info_list. 1) (filter is_discrete_column oi)) = length (discrete_dims oi)"
  by (induction oi) (auto simp: discrete_dims_def)

lemma n_disc_count_Suc:
  "sum_list (map (\<lambda>span_info_list. Suc 0) (filter is_discrete_column oi)) = length (discrete_dims oi)"
  by (induction oi) (auto simp: discrete_dims_def)

lemma dims_le_max_category: "list_all (\<lambda>n. n \<le> max_category oi) (discrete_dims oi)"
  by (auto simp: max_category_def list_all_iff)

lemma init_total_width:
  assumes "init ops d oi lf = Inr s"
  shows "total_width oi = ncols d"
proof -
  from assms obtain st rids where r: "rid_loop d oi 0 [] = Inr (st, rids)" and "st = ncols d"
    by (auto simp: init_def Let_def split: sum.splits prod.splits if_splits)
  with rid_loop_st[OF r] show ?thesis by simp
qed

lemma init_error:
  assumes "total_width oi \<noteq> ncols d"
  shows "init ops d oi lf = Inl AssertionError \<or> init ops d oi lf = Inl IndexError"
proof (cases "rid_loop d oi 0 []")
  case (Inl e)
  with rid_loop_error[OF Inl] show ?thesis by (simp add: init_def)
next
  case (Inr p)
  obtain st rids where p: "p = (st, rids)" by (cases p)
  with Inr rid_loop_st[of d oi 0 "[]" st rids] assms show ?thesis
    by (simp add: init_def)
qed

lemma init_success:
  assumes "total_width oi = ncols d"
  shows "\<exists>s. init ops d oi lf = Inr s \<and>
     data s = d \<and>
     discrete_column_matrix_st s = replicate (length (discrete_dims oi)) 0 \<and>
     rid_by_cat_cols s =
       map (\<lambda>(ms, n). rid_of d ms n) (zip (matrix_starts oi 0) (discrete_dims oi)) \<and>
     length (discrete_column_cond_st s) = length (discrete_dims oi) \<and>
     length (discrete_column_n_category s) = length (discrete_dims oi) \<and>
     length (discrete_column_category_prob s) = length (discrete_dims oi) \<and>
     category_prob_width s = max_category oi \<and>
     n_discrete_columns s = length (discrete_dims oi) \<and>
     n_categories s = sum_list (discrete_dims oi) \<and>
     (\<forall>j<length (discrete_dims oi).
        discrete_column_cond_st s ! j = sum_list (take j (discrete_dims oi)) \<and>
        discrete_column_n_category s ! j = discrete_dims oi ! j \<and>
        discrete_column_category_prob s ! j =
          category_prob_of ops lf (category_freq ops d (matrix_starts oi 0 ! j)
                                 (matrix_starts oi 0 ! j + discrete_dims oi ! j))
          @ replicate (max_category oi - discrete_dims oi ! j) (Fin 0))"
proof -
  let ?N = "length (discrete_dims oi)"
  let ?W = "max_category oi"
  let ?prob = "replicate ?N (replicate ?W (Fin 0))"
  have r: "rid_loop d oi 0 [] =
     Inr (ncols d, map (\<lambda>(ms, n). rid_of d ms n) (zip (matrix_starts oi 0) (discrete_dims oi)))"
    using rid_loop_Inr[of 0 oi d "[]"] assms by simp
  have "\<exists>cst' ncat' prob'.
     prob_loop ops d lf oi 0 0 0 (replicate ?N 0, replicate ?N 0, ?prob) = Inr (cst', ncat', prob') \<and>
     length cst' = length ?prob \<and> length ncat' = length ?prob \<and> length prob' = length ?prob \<and>
     (\<forall>i<0. cst' ! i = replicate ?N 0 ! i \<and> ncat' ! i = replicate ?N 0 ! i \<and> prob' ! i = ?prob ! i) \<and>
     (\<forall>j<length (discrete_dims oi).
        cst' ! (0 + j) = 0 + sum_list (take j (discrete_dims oi)) \<and>
        ncat' ! (0 + j) = discrete_dims oi ! j \<and>
        prob' ! (0 + j) =
          category_prob_of ops lf (category_freq ops d (matrix_starts oi 0 ! j)
                                 (matrix_starts oi 0 ! j + discrete_dims oi ! j))
          @ drop (discrete_dims oi ! j) (?prob ! (0 + j))) \<and>
     (\<forall>i<length ?prob. length (prob' ! i) = ?W)"
    by (rule prob_loop_spec) (use assms dims_le_max_category in simp_all)
  then obtain cst' ncat' prob' where
    p: "prob_loop ops d lf oi 0 0 0 (replicate ?N 0, replicate ?N 0, ?prob) = Inr (cst', ncat', prob')"
    and len: "length cst' = ?N" "length ncat' = ?N" "length prob' = ?N"
    and mid: "\<forall>j<?N.
        cst' ! j = sum_list (take j (discrete_dims oi)) \<and>
        ncat' ! j = discrete_dims oi ! j \<and>
        prob' ! j =
          category_prob_of ops lf (category_freq ops d (matrix_starts oi 0 ! j)
                                 (matrix_starts oi 0 ! j + discrete_dims oi ! j))
          @ replicate (?W - discrete_dims oi ! j) (Fin 0)"
    by auto
  show ?thesis
    using r p len mid
    by (simp add: init_def Let_def n_disc_count_Suc)
qed

lemma init_facts:
  assumes "init ops d oi lf = Inr s"
  shows "data s = d"
    and "discrete_column_matrix_st s = replicate (length (discrete_dims oi)) 0"
    and "rid_by_cat_cols s =
           map (\<lambda>(ms, n). rid_of d ms n) (zip (matrix_starts oi 0) (discrete_dims oi))"
    and "length (discrete_column_cond_st s) = length (discrete_dims oi)"
    and "discrete_column_n_category s = discrete_dims oi"
    and "length (discrete_column_category_prob s) = length (discrete_dims oi)"
    and "category_prob_width s = max_category oi"
    and "n_discrete_columns s = length (discrete_dims oi)"
    and "n_categories s = sum_list (discrete_dims oi)"
    and "\<And>j. j < length (discrete_dims oi) \<Longrightarrow>
           discrete_column_cond_st s ! j = sum_list (take j (discrete_dims oi))"
    and "\<And>j. j < length (discrete_dims oi) \<Longrightarrow>
           discrete_column_category_prob s ! j =
             category_prob_of ops lf (category_freq ops d (matrix_starts oi 0 ! j)
                                    (matrix_starts oi 0 ! j + discrete_dims oi ! j))
             @ replicate (max_category oi - discrete_dims oi ! j) (Fin 0)"
proof -
  from init_success[OF init_total_width[OF assms], where lf = lf and ops = ops] assms
  have *: "data s = d \<and>
     discrete_column_matrix_st s = replicate (length (discrete_dims oi)) 0 \<and>
     rid_by_cat_cols s =
       map (\<lambda>(ms, n). rid_of d ms n) (zip (matrix_starts oi 0) (discrete_dims oi)) \<and>
     length (discrete_column_cond_st s) = length (discrete_dims oi) \<and>
     length (discrete_column_n_category s) = length (discrete_dims oi) \<and>
     length (discrete_column_category_prob s) = length (discrete_dims oi) \<and>
     category_prob_width s = max_category oi \<and>
     n_discrete_columns s = length (discrete_dims oi) \<and>
     n_categories s = sum_list (discrete_dims oi) \<and>
     (\<forall>j<length (discrete_dims oi).
        discrete_column_cond_st s ! j = sum_list (take j (discrete_dims oi)) \<and>
        discrete_column_n_category s ! j = discrete_dims oi ! j \<and>
        discrete_column_category_prob s ! j =
          category_prob_of ops lf (category_freq ops d (matrix_starts oi 0 ! j)
                                 (matrix_starts oi 0 ! j + discrete_dims oi ! j))
          @ replicate (max_category oi - discrete_dims oi ! j) (Fin 0))"
    by auto
  from * show "data s = d" by blast
  from * show "discrete_column_matrix_st s = replicate (length (discrete_dims oi)) 0" by blast
  from * show "rid_by_cat_cols s =
           map (\<lambda>(ms, n). rid_of d ms n) (zip (matrix_starts oi 0) (discrete_dims oi))" by blast
  from * show "length (discrete_column_cond_st s) = length (discrete_dims oi)" by blast
  from * show "discrete_column_n_category s = discrete_dims oi"
    by (intro nth_equalityI) auto
  from * show "length (discrete_column_category_prob s) = length (discrete_dims oi)" by blast
  from * show "category_prob_width s = max_category oi" by blast
  from * show "n_discrete_columns s = length (discrete_dims oi)" by blast
  from * show "n_categories s = sum_list (discrete_dims oi)" by blast
  from * show "\<And>j. j < length (discrete_dims oi) \<Longrightarrow>
           discrete_column_cond_st s ! j = sum_list (take j (discrete_dims oi))" by blast
  from * show "\<And>j. j < length (discrete_dims oi) \<Longrightarrow>
           discrete_column_category_prob s ! j =
             category_prob_of ops lf (category_freq ops d (matrix_starts oi 0 ! j)
                                    (matrix_starts oi 0 ! j + discrete_dims oi ! j))
             @ replicate (max_category oi - discrete_dims oi ! j) (Fin 0)" by blast
qed

subsection \<open>Row retrieval\<close>

lemma rid_nth:
  assumes "init ops d oi lf = Inr s" and "c < n_discrete_columns s"
    and "opt < discrete_column_n_category s ! c"
  shows "rid_by_cat_cols s ! c ! opt =
           rows_with d (matrix_starts oi 0 ! c + opt)"
    and "c < length (rid_by_cat_cols s)" and "opt < length (rid_by_cat_cols s ! c)"
    and "matrix_starts oi 0 ! c + opt < ncols d"
proof -
  note f = init_facts[OF assms(1)]
  have c: "c < length (discrete_dims oi)" using assms(2) f(8) by simp
  have o: "opt < discrete_dims oi ! c" using assms(3) f(5) by simp
  have r: "rid_by_cat_cols s ! c = rid_of d (matrix_starts oi 0 ! c) (discrete_dims oi ! c)"
    using c by (simp add: f(3) length_matrix_starts)
  show "rid_by_cat_cols s ! c ! opt =
           rows_with d (matrix_starts oi 0 ! c + opt)"
    using o by (simp add: r rid_of_def)
  show "c < length (rid_by_cat_cols s)" using c by (simp add: f(3) length_matrix_starts)
  show "opt < length (rid_by_cat_cols s ! c)" using o by (simp add: r rid_of_def)
  from matrix_starts_bound[OF c, of 0] init_total_width[OF assms(1)] o
  show "matrix_starts oi 0 ! c + opt < ncols d" by simp
qed

lemma sample_data_loop_Inr:
  assumes "list_all (\<lambda>(c, opt). c < length (rid_by_cat_cols s)
             \<and> opt < length (rid_by_cat_cols s ! c) \<and> rid_by_cat_cols s ! c ! opt \<noteq> []) ps"
  shows "sample_data_loop s pick ps k idx =
     Inr (idx @ map (\<lambda>i. rid_by_cat_cols s ! fst (ps ! i) ! snd (ps ! i) ! pick (k + i))
                  [0..<length ps])"
  using assms
proof (induction ps arbitrary: k idx)
  case Nil
  then show ?case by simp
next
  case (Cons p ps)
  obtain c opt where p: "p = (c, opt)" by (cases p)
  from Cons.prems p have ok: "c < length (rid_by_cat_cols s)"
      "opt < length (rid_by_cat_cols s ! c)" "rid_by_cat_cols s ! c ! opt \<noteq> []"
    and rest: "list_all (\<lambda>(c, opt). c < length (rid_by_cat_cols s)
             \<and> opt < length (rid_by_cat_cols s ! c) \<and> rid_by_cat_cols s ! c ! opt \<noteq> []) ps"
    by simp_all
  show ?case
    using ok Cons.IH[OF rest, of "k + 1" "idx @ [rid_by_cat_cols s ! c ! opt ! pick k]"]
    by (simp add: p map_upt_Suc del: upt_Suc)
qed

lemma sample_data_loop_Inl:
  assumes "\<not> list_all (\<lambda>(c, opt). c < length (rid_by_cat_cols s)
             \<and> opt < length (rid_by_cat_cols s ! c) \<and> rid_by_cat_cols s ! c ! opt \<noteq> []) ps"
  shows "\<exists>e. sample_data_loop s pick ps k idx = Inl e"
  using assms
proof (induction ps arbitrary: k idx)
  case Nil
  then show ?case by simp
next
  case (Cons p ps)
  obtain c opt where p: "p = (c, opt)" by (cases p)
  show ?case
  proof (cases "c < length (rid_by_cat_cols s)
             \<and> opt < length (rid_by_cat_cols s ! c) \<and> rid_by_cat_cols s ! c ! opt \<noteq> []")
    case True
    with Cons.prems p have "\<not> list_all (\<lambda>(c, opt). c < length (rid_by_cat_cols s)
             \<and> opt < length (rid_by_cat_cols s ! c) \<and> rid_by_cat_cols s ! c ! opt \<noteq> []) ps"
      by simp
    from Cons.IH[OF this] show ?thesis using True by (simp add: p)
  next
    case False
    then show ?thesis by (auto simp: p)
  qed
qed

subsection \<open>Arg-max over booleans\<close>

lemma argmax_loop_True: "argmax_loop xs i b True = b"
  by (induction xs arbitrary: i) auto

lemma argmax_loop_False:
  "argmax_loop xs i b False =
     (if True \<in> set xs then i + length (takeWhile Not xs) else b)"
  by (induction xs arbitrary: i) (auto simp: argmax_loop_True)

lemma np_argmax_bool: "bs \<noteq> [] \<Longrightarrow> np_argmax bs = Inr (first_true bs)"
  by (cases bs) (auto simp: np_argmax_def first_true_def argmax_loop_True argmax_loop_False)

lemma first_true_props:
  assumes "True \<in> set bs"
  shows "first_true bs < length bs" and "bs ! first_true bs"
    and "\<And>j. j < first_true bs \<Longrightarrow> \<not> bs ! j"
proof -
  have k: "first_true bs = length (takeWhile Not bs)" using assms by (simp add: first_true_def)
  have ne: "takeWhile Not bs \<noteq> bs"
  proof
    assume "takeWhile Not bs = bs"
    then have "\<forall>x\<in>set bs. \<not> x" by (simp add: takeWhile_eq_all_conv)
    from bspec[OF this assms] show False by simp
  qed
  have le: "length (takeWhile Not bs) \<le> length bs" by (rule length_takeWhile_le)
  have "length (takeWhile Not bs) \<noteq> length bs"
  proof
    assume a: "length (takeWhile Not bs) = length bs"
    have "takeWhile Not bs = take (length (takeWhile Not bs)) bs" by (rule takeWhile_eq_take)
    also have "\<dots> = take (length bs) bs" by (simp only: a)
    also have "\<dots> = bs" by simp
    finally show False using ne by contradiction
  qed
  with le have lt: "length (takeWhile Not bs) < length bs" by simp
  show "first_true bs < length bs" using lt k by simp
  show "bs ! first_true bs" using nth_length_takeWhile[OF lt] k by simp
  show "\<And>j. j < first_true bs \<Longrightarrow> \<not> bs ! j"
  proof -
    fix j assume "j < first_true bs"
    then have j: "j < length (takeWhile Not bs)" using k by simp
    then have "takeWhile Not bs ! j \<in> set (takeWhile Not bs)" by simp
    from set_takeWhileD[OF this] have "\<not> takeWhile Not bs ! j" by simp
    then show "\<not> bs ! j" using takeWhile_nth[OF j] by simp
  qed
qed

lemma first_true_none: "True \<notin> set bs \<Longrightarrow> first_true bs = 0"
  by (simp add: first_true_def)

subsection \<open>Cumulative sums\<close>

lemma np_add_zero_right: "np_add ops x (Fin 0) = x"
  by (simp add: np_add_def)

lemma cumsum_from_zeros: "cumsum_from ops a (replicate m (Fin 0)) = replicate m a"
  by (induction m) (auto simp: np_add_zero_right)

lemma length_cumsum_from: "length (cumsum_from ops a xs) = length xs"
  by (induction xs arbitrary: a) auto

lemma length_cumsum: "length (cumsum ops xs) = length xs"
  by (cases xs) (auto simp: cumsum_def length_cumsum_from)

lemma cumsum_from_append:
  "cumsum_from ops a (xs @ ys) =
     cumsum_from ops a xs @ cumsum_from ops (last (a # cumsum_from ops a xs)) ys"
  by (induction xs arbitrary: a) auto

lemma cumsum_padded:
  assumes "cp \<noteq> []"
  shows "cumsum ops (cp @ replicate m (Fin 0)) =
           cumsum ops cp @ replicate m (last (cumsum ops cp))"
proof -
  from assms obtain x rest where cp: "cp = x # rest" by (cases cp) auto
  show ?thesis
    by (simp add: cp cumsum_def cumsum_from_append cumsum_from_zeros)
qed

lemma cumsum_padded_flat:
  assumes "0 < length cp" and "length cp \<le> Suc j" and "j < length cp + m"
  shows "cumsum ops (cp @ replicate m (Fin 0)) ! j = cumsum ops cp ! (length cp - 1)"
proof -
  from assms(1) have ne: "cp \<noteq> []" by auto
  then have cne: "cumsum ops cp \<noteq> []"
    using length_cumsum[of ops cp] by auto
  have l: "last (cumsum ops cp) = cumsum ops cp ! (length cp - 1)"
    using last_conv_nth[OF cne] by (simp add: length_cumsum)
  show ?thesis
  proof (cases "j < length cp")
    case True
    with assms(2) have "j = length cp - 1" by arith
    then show ?thesis
      using True by (simp add: cumsum_padded[OF ne] nth_append length_cumsum)
  next
    case False
    with assms(3) have "j - length cp < m" by arith
    then have "replicate m (last (cumsum ops cp)) ! (j - length cp) = last (cumsum ops cp)"
      by (rule nth_replicate)
    then show ?thesis
      using False l by (simp add: cumsum_padded[OF ne] nth_append length_cumsum)
  qed
qed

subsection \<open>One categorical draw\<close>

lemma choice_index_in_range:
  assumes "0 < length cp"
  shows "choice_index ops (cp @ replicate m (Fin 0)) r < length cp"
proof (cases "True \<in> set (map (\<lambda>x. np_gt x r) (cumsum ops (cp @ replicate m (Fin 0))))")
  case False
  then show ?thesis using assms by (simp add: choice_index_def first_true_none)
next
  case True
  let ?row = "cp @ replicate m (Fin 0)"
  let ?bs = "map (\<lambda>x. np_gt x r) (cumsum ops ?row)"
  let ?k = "first_true ?bs"
  note p = first_true_props[OF True]
  have klen: "?k < length cp + m" using p(1) by (simp add: length_cumsum)
  show ?thesis
  proof (rule ccontr)
    assume "\<not> choice_index ops ?row r < length cp"
    then have ge: "length cp \<le> ?k" by (simp add: choice_index_def)
    have "cumsum ops ?row ! ?k = cumsum ops cp ! (length cp - 1)"
      using cumsum_padded_flat[OF assms, of ?k m ops] ge klen by simp
    moreover have "cumsum ops ?row ! (length cp - 1) = cumsum ops cp ! (length cp - 1)"
    proof (rule cumsum_padded_flat[OF assms])
      show "length cp \<le> Suc (length cp - 1)" by simp
      show "length cp - 1 < length cp + m" using assms by arith
    qed
    ultimately have eq: "cumsum ops ?row ! (length cp - 1) = cumsum ops ?row ! ?k" by simp
    have "length cp - 1 < length cp + m" using assms by arith
    then have "length cp - 1 < length (cumsum ops ?row)" by (simp add: length_cumsum)
    then have "?bs ! (length cp - 1) = np_gt (cumsum ops ?row ! (length cp - 1)) r"
      by (rule nth_map)
    moreover have "?bs ! ?k = np_gt (cumsum ops ?row ! ?k) r"
      using klen by (simp add: length_cumsum)
    ultimately have "?bs ! (length cp - 1) = ?bs ! ?k"
      using eq by simp
    then have "?bs ! (length cp - 1)" using p(2) by simp
    moreover have "length cp - 1 < ?k" using ge assms by arith
    ultimately show False using p(3) by blast
  qed
qed

lemma choice_index_first:
  assumes "j < length row" and "np_gt (cumsum ops row ! j) r"
  shows "choice_index ops row r \<le> j"
    and "np_gt (cumsum ops row ! choice_index ops row r) r"
    and "\<And>i. i < choice_index ops row r \<Longrightarrow> \<not> np_gt (cumsum ops row ! i) r"
proof -
  let ?bs = "map (\<lambda>x. np_gt x r) (cumsum ops row)"
  have jl: "j < length ?bs" using assms(1) by (simp add: length_cumsum)
  have "?bs ! j = True" using assms by (simp add: length_cumsum)
  with nth_mem[OF jl] have T: "True \<in> set ?bs" by simp
  note p = first_true_props[OF T]
  have len: "first_true ?bs < length row" using p(1) by (simp add: length_cumsum)
  show "choice_index ops row r \<le> j"
  proof (rule ccontr)
    assume "\<not> choice_index ops row r \<le> j"
    then have "j < first_true ?bs" by (simp add: choice_index_def)
    from p(3)[OF this] show False using assms by (simp add: length_cumsum)
  qed
  show "np_gt (cumsum ops row ! choice_index ops row r) r"
    using p(2) len by (simp add: choice_index_def length_cumsum)
  show "\<And>i. i < choice_index ops row r \<Longrightarrow> \<not> np_gt (cumsum ops row ! i) r"
  proof -
    fix i assume i: "i < choice_index ops row r"
    then have "i < first_true ?bs" by (simp add: choice_index_def)
    from p(3)[OF this] show "\<not> np_gt (cumsum ops row ! i) r"
      using i len by (simp add: choice_index_def length_cumsum)
  qed
qed

lemma collect_map_Inr: "collect (map (\<lambda>i. Inr (f i)) xs) = Inr (map f xs)"
  by (induction xs) auto


subsection \<open>The stored probability rows\<close>

lemma prob_row:
  assumes "init ops d oi lf = Inr s" and "c < n_discrete_columns s"
  shows "discrete_column_category_prob s ! c =
           category_prob_of ops lf (category_freq ops d (matrix_starts oi 0 ! c)
              (matrix_starts oi 0 ! c + discrete_column_n_category s ! c))
           @ replicate (category_prob_width s - discrete_column_n_category s ! c) (Fin 0)"
    and "length (category_prob_of ops lf (category_freq ops d (matrix_starts oi 0 ! c)
              (matrix_starts oi 0 ! c + discrete_column_n_category s ! c)))
           = discrete_column_n_category s ! c"
    and "discrete_column_n_category s ! c \<le> category_prob_width s"
    and "length (discrete_column_category_prob s ! c) = category_prob_width s"
    and "matrix_starts oi 0 ! c + discrete_column_n_category s ! c \<le> ncols d"
proof -
  note f = init_facts[OF assms(1)]
  have c: "c < length (discrete_dims oi)" using assms(2) f(8) by simp
  show r: "discrete_column_category_prob s ! c =
           category_prob_of ops lf (category_freq ops d (matrix_starts oi 0 ! c)
              (matrix_starts oi 0 ! c + discrete_column_n_category s ! c))
           @ replicate (category_prob_width s - discrete_column_n_category s ! c) (Fin 0)"
    using f(11)[OF c] by (simp add: f(5) f(7))
  show b: "matrix_starts oi 0 ! c + discrete_column_n_category s ! c \<le> ncols d"
    using matrix_starts_bound[OF c, of 0] init_total_width[OF assms(1)] by (simp add: f(5))
  show l: "length (category_prob_of ops lf (category_freq ops d (matrix_starts oi 0 ! c)
              (matrix_starts oi 0 ! c + discrete_column_n_category s ! c)))
           = discrete_column_n_category s ! c"
    using b by (simp add: length_category_prob_of length_category_freq)
  show w: "discrete_column_n_category s ! c \<le> category_prob_width s"
    using dims_le_max_category[of oi] c by (simp add: f(5) f(7) list_all_length)
  show "length (discrete_column_category_prob s ! c) = category_prob_width s"
    using l w by (simp add: r)
qed

lemma random_choice_prob_index_eval:
  assumes "init ops d oi lf = Inr s"
    and "\<forall>i<length ids. ids ! i < n_discrete_columns s"
    and "0 < category_prob_width s"
  shows "random_choice_prob_index ops s ids rand =
     Inr (map (\<lambda>i. choice_index ops (discrete_column_category_prob s ! (ids ! i)) (rand i))
            [0..<length ids])"
proof -
  note f = init_facts[OF assms(1)]
  have a: "\<not> list_ex (\<lambda>c. length (discrete_column_category_prob s) \<le> c) ids"
  proof
    assume "list_ex (\<lambda>c. length (discrete_column_category_prob s) \<le> c) ids"
    then obtain i where "i < length ids" "length (discrete_column_category_prob s) \<le> ids ! i"
      by (auto simp: list_ex_iff in_set_conv_nth)
    with assms(2) show False by (auto simp: f(6) f(8))
  qed
  have b: "map (\<lambda>i. np_argmax (map (\<lambda>x. np_gt x (rand i))
                (cumsum ops (discrete_column_category_prob s ! (ids ! i))))) [0..<length ids]
         = map (\<lambda>i. Inr (choice_index ops (discrete_column_category_prob s ! (ids ! i)) (rand i)))
             [0..<length ids]"
  proof (rule map_cong[OF refl])
    fix i assume "i \<in> set [0..<length ids]"
    then have "ids ! i < n_discrete_columns s" using assms(2) by simp
    from prob_row(4)[OF assms(1) this] assms(3)
    have "map (\<lambda>x. np_gt x (rand i)) (cumsum ops (discrete_column_category_prob s ! (ids ! i))) \<noteq> []"
      by (simp add: length_cumsum flip: length_0_conv)
    from np_argmax_bool[OF this]
    show "np_argmax (map (\<lambda>x. np_gt x (rand i))
                (cumsum ops (discrete_column_category_prob s ! (ids ! i))))
          = Inr (choice_index ops (discrete_column_category_prob s ! (ids ! i)) (rand i))"
      by (simp add: choice_index_def)
  qed
  show ?thesis
    using a assms(3) by (simp add: random_choice_prob_index_def b collect_map_Inr)
qed


lemma take_sum_bound:
  "c < length (dd :: nat list) \<Longrightarrow> sum_list (take c dd) + dd ! c \<le> sum_list dd"
proof -
  assume c: "c < length dd"
  have "sum_list (take (Suc c) dd) \<le> sum_list (take (Suc c) dd) + sum_list (drop (Suc c) dd)"
    by simp
  also have "\<dots> = sum_list dd"
    by (metis append_take_drop_id sum_list.append)
  finally show ?thesis using c by (simp add: take_Suc_conv_app_nth)
qed

lemma set_ones_eval:
  assumes "length idx = batch" and "\<forall>i<batch. idx ! i < width"
  shows "set_ones batch width idx = Inr (map (\<lambda>i. (replicate width 0)[idx ! i := 1]) [0..<batch])"
proof -
  have "\<not> list_ex (\<lambda>k. width \<le> k) idx"
  proof
    assume "list_ex (\<lambda>k. width \<le> k) idx"
    then obtain i where "i < length idx" "width \<le> idx ! i"
      by (auto simp: list_ex_iff in_set_conv_nth)
    with assms show False by auto
  qed
  then show ?thesis using assms(1) by (simp add: set_ones_def)
qed

lemma one_hot_nth:
  "k < width \<Longrightarrow> j < width \<Longrightarrow>
     (replicate width (0::real))[k := 1] ! j = (if j = k then 1 else 0)"
  by (simp add: nth_list_update)

subsection \<open>Normalised frequencies\<close>












lemma choice_index_none:
  assumes "\<forall>j<length row. \<not> np_gt (cumsum ops row ! j) r"
  shows "choice_index ops row r = 0"
proof -
  have "True \<notin> set (map (\<lambda>x. np_gt x r) (cumsum ops row))"
  proof
    assume "True \<in> set (map (\<lambda>x. np_gt x r) (cumsum ops row))"
    then obtain j where "j < length (cumsum ops row)" "np_gt (cumsum ops row ! j) r"
      by (auto simp: in_set_conv_nth)
    with assms show False by (simp add: length_cumsum)
  qed
  then show ?thesis by (simp add: choice_index_def first_true_none)
qed

subsection \<open>Decoding a one-hot block\<close>

lemma argmax_loop_le:
  "\<forall>x\<in>set xs. x \<le> best \<Longrightarrow> argmax_loop xs i b best = b"
  by (induction xs arbitrary: i) auto

lemma argmax_loop_unit:
  "argmax_loop (replicate m 0 @ 1 # replicate p 0) i b (0::real) = i + m"
  by (induction m arbitrary: i) (auto simp: argmax_loop_le)

lemma unit_vector_split:
  "k < n \<Longrightarrow> (replicate n (0::real))[k := 1] = replicate k 0 @ 1 # replicate (n - Suc k) 0"
  by (simp add: upd_conv_take_nth_drop min_def)

lemma np_argmax_unit:
  assumes "k < n"
  shows "np_argmax ((replicate n (0::real))[k := 1]) = Inr k"
proof (cases k)
  case 0
  then show ?thesis
    using assms by (simp add: unit_vector_split np_argmax_def argmax_loop_le)
next
  case (Suc k')
  have "replicate (Suc k') (0::real) = 0 # replicate k' 0" by simp
  then have "(replicate n (0::real))[k := 1] = 0 # (replicate k' 0 @ 1 # replicate (n - Suc k) 0)"
    using unit_vector_split[OF assms] Suc by simp
  then show ?thesis
    using Suc by (simp add: np_argmax_def argmax_loop_unit)
qed

lemma one_hot_decode:
  assumes "is_one_hot xs" and "j < length xs" and "xs ! j \<noteq> 0"
  shows "np_argmax xs = Inr j"
proof -
  from assms(1) obtain k where k: "k < length xs"
    and xs: "xs = (replicate (length xs) 0)[k := 1]"
    by (auto simp: is_one_hot_def list_ex_iff)
  have "((replicate (length xs) (0::real))[k := 1]) ! j \<noteq> 0"
    using assms(3) xs by simp
  then have "j = k" using assms(2) k by (auto simp: nth_list_update split: if_splits)
  then show ?thesis using np_argmax_unit[OF k] xs by simp
qed

subsection \<open>Cumulative sums in exact arithmetic\<close>

lemma exact_add_zero_left: "exact_add (Fin 0) x = x"
  by (cases x) simp_all

lemma np_add_exact: "np_add exact_ops x y = exact_add x y"
  by (cases x; cases y) (simp_all add: np_add_def exact_ops_def)

lemma cumsum_from_last:
  "xs \<noteq> [] \<Longrightarrow> last (cumsum_from ops a xs) = foldl (np_add ops) a xs"
proof (induction xs arbitrary: a)
  case Nil
  then show ?case by simp
next
  case (Cons x xs)
  show ?case
  proof (cases "xs = []")
    case True
    then show ?thesis by simp
  next
    case False
    have ne: "cumsum_from ops (np_add ops a x) xs \<noteq> []"
      using False length_cumsum_from[of ops "np_add ops a x" xs] by auto
    show ?thesis using Cons.IH[OF False, of "np_add ops a x"] ne by simp
  qed
qed

lemma cumsum_exact_last:
  assumes "cp \<noteq> []"
  shows "cumsum exact_ops cp ! (length cp - 1) = fl_sum exact_ops cp"
proof -
  from assms obtain x rest where cp: "cp = x # rest" by (cases cp) auto
  have e: "np_add exact_ops = exact_add" by (intro ext) (rule np_add_exact)
  have s: "fl_sum exact_ops cp = foldl exact_add x rest"
    by (simp add: cp exact_ops_def exact_add_zero_left)
  show ?thesis
  proof (cases "rest = []")
    case True
    then show ?thesis using s by (simp add: cp cumsum_def)
  next
    case False
    let ?cs = "cumsum_from exact_ops x rest"
    have l: "length ?cs = length rest" by (rule length_cumsum_from)
    then have ne: "?cs \<noteq> []" using False by auto
    have "cumsum exact_ops cp ! (length cp - 1) = ?cs ! (length rest - 1)"
      using False by (simp add: cp cumsum_def nth_Cons split: nat.splits)
    also have "\<dots> = last ?cs" using last_conv_nth[OF ne] l by simp
    also have "\<dots> = foldl exact_add x rest" using cumsum_from_last[OF False, of exact_ops x] e by simp
    finally show ?thesis using s by simp
  qed
qed

subsection \<open>Evaluating the model on concrete inputs\<close>

lemmas eval_defs =
  init_def is_discrete_column_def nonzero_col_def category_freq_def category_prob_of_def
  assign_prefix_def discrete_dims_def max_category_def np_add_def exact_ops_def Let_def
  cumsum_def np_argmax_def random_choice_prob_index_def set_ones_def sample_condvec_def
  sample_original_condvec_def row_of_def take_rows_def sample_data_def dim_cond_vec_def
  generate_cond_from_condition_column_info_def total_width_def rid_of_def rows_with_def
  col_sums_def block_of_def decode_block_def is_one_hot_def
  softmax_span_def tanh_span_def matrix_of_rows_def ex_data_def ex_layout_def ex_sampler_def
  ex_data_one_sided_def ex_data_empty_def ex_sampler_empty_def ex_data_narrow_def
  ex_layout_narrow_def ex_sampler_narrow_def ex_data_multi_hot_def ex_sampler_multi_hot_def ex_data_zero_width_def ex_sampler_zero_width_def
  eval_nat_numeral

lemma ex_init: "init exact_ops ex_data ex_layout False = Inr ex_sampler"
  by (simp add: eval_defs)


section \<open>The claims\<close>

text \<open>
  A statement with a variable \<open>ops\<close> holds for every floating-point arithmetic; a statement
  that names \<open>exact_ops\<close> is about the arithmetic without rounding, which is also the one the
  concrete evaluations use.
\<close>

text \<open>
  C1 (evaluation at the failing input). For the example sampler, whose second discrete
  column has conditioning offset 2, the fixed condition (column 1, value 0) sets position
  0 in every row: the code adds the value id to the column's never-assigned matrix start
  (always 0), not to its conditioning offset.
\<close>

theorem generate_cond_at_second_column:
  "init exact_ops ex_data ex_layout False = Inr ex_sampler \<and>
   discrete_column_cond_st ex_sampler ! 1 = 2 \<and>
   generate_cond_from_condition_column_info ex_sampler
       \<lparr>discrete_column_id = 1, value_id = 0\<rparr> 2
     = Inr [[1, 0, 0, 0], [1, 0, 0, 0]]"
  by (simp add: eval_defs)

text \<open>
  C2 (evaluation at the failing input). For the example sampler, drawing training row 0 and
  discrete column 1: that row's value in column 1's own span (matrix columns 2 and 3) is
  category 1, so the bit of the claim is position 2 + 1 = 3; the code takes the arg-max
  over matrix columns 0 and 1 (the span of column 0) and sets position 2.
\<close>

theorem sample_original_condvec_at_second_column:
  "init exact_ops ex_data ex_layout False = Inr ex_sampler \<and>
   sample_original_condvec ex_sampler 1 (\<lambda>i. 0) (\<lambda>i. 1) = Inr (Some [[0, 0, 1, 0]]) \<and>
   discrete_column_cond_st ex_sampler ! 1 = 2 \<and>
   matrix_starts ex_layout 0 ! 1 = 2 \<and>
   np_argmax (map (cell ex_data 0) [2..<2 + discrete_column_n_category ex_sampler ! 1]) = Inr 1"
  by (simp add: eval_defs)

text \<open>
  C3. Construction succeeds if and only if the sum of all span widths of the layout equals
  the encoded matrix's column count (Invariant I1): for a pair satisfying it the constructor
  returns a sampler, and for a pair violating it the constructor raises, either at the
  assertion after the first walk or earlier, when the walk indexes a column the matrix
  does not have.
\<close>

theorem construction_iff_layout_consistent:
  "(total_width output_info = ncols d \<longrightarrow> (\<exists>s. init ops d output_info log_frequency = Inr s)) \<and>
   (total_width output_info \<noteq> ncols d \<longrightarrow>
      (init ops d output_info log_frequency = Inl AssertionError \<or>
       init ops d output_info log_frequency = Inl IndexError))"
proof (intro conjI impI)
  assume "total_width output_info = ncols d"
  from init_success[OF this, where lf = log_frequency and ops = ops]
  show "\<exists>s. init ops d output_info log_frequency = Inr s" by blast
next
  assume "total_width output_info \<noteq> ncols d"
  then show "init ops d output_info log_frequency = Inl AssertionError \<or>
       init ops d output_info log_frequency = Inl IndexError"
    by (rule init_error)
qed

theorem construction_iff_layout_consistent_witness:
  "total_width ex_layout = ncols ex_data \<and>
   (\<exists>s. init exact_ops ex_data ex_layout False = Inr s) \<and>
   total_width [[softmax_span 2], [tanh_span 3]] \<noteq> ncols (matrix_of_rows 6 [[1, 0, 0, 0, 0, 0]]) \<and>
   init exact_ops (matrix_of_rows 6 [[1, 0, 0, 0, 0, 0]]) [[softmax_span 2], [tanh_span 3]] False
     = Inl AssertionError"
proof -
  have a: "total_width ex_layout = ncols ex_data"
    by (simp add: eval_defs)
  have b: "total_width [[softmax_span 2], [tanh_span 3]]
             \<noteq> ncols (matrix_of_rows 6 [[1, 0, 0, 0, 0, 0]])"
    by (simp add: eval_defs)
  have c: "init exact_ops (matrix_of_rows 6 [[1, 0, 0, 0, 0, 0]]) [[softmax_span 2], [tanh_span 3]] False
             \<noteq> Inl IndexError"
    by (simp add: eval_defs)
  from construction_iff_layout_consistent[of ex_layout ex_data exact_ops False] a
  have "\<exists>s. init exact_ops ex_data ex_layout False = Inr s" by blast
  moreover from construction_iff_layout_consistent
      [of "[[softmax_span 2], [tanh_span 3]]" "matrix_of_rows 6 [[1, 0, 0, 0, 0, 0]]" exact_ops False] b c
  have "init exact_ops (matrix_of_rows 6 [[1, 0, 0, 0, 0, 0]]) [[softmax_span 2], [tanh_span 3]] False
          = Inl AssertionError" by blast
  ultimately show ?thesis using a b by blast
qed

text \<open>
  C4 (as amended). For every constructed sampler with at least one discrete column, each
  with at least one category, and every batch size \<open>b\<close>, \<^verbatim>\<open>sample_condvec(b)\<close> returns four
  batch-aligned results: a conditioning vector of shape \<open>(b, total_categories)\<close> whose row
  \<open>i\<close> has its only 1 at \<open>cond_start[col] + category_id_in_col\<close> for that row's returned
  column and category ids, the category id lying below the column's category count; a mask
  of shape \<open>(b, n_discrete_columns)\<close> whose row \<open>i\<close> has its only 1 at the returned column
  id; and the two id vectors of length \<open>b\<close>.
\<close>

theorem sample_condvec_one_hot:
  assumes "init ops d output_info log_frequency = Inr s"
    and "0 < n_discrete_columns s"
    and "\<forall>c<n_discrete_columns s. 0 < discrete_column_n_category s ! c"
    and "\<forall>i<batch. choice i < n_discrete_columns s"
  shows "\<exists>cond mask_rows category_id_in_col.
     sample_condvec ops s batch choice rand =
       Inr (Some (cond, mask_rows, map choice [0..<batch], category_id_in_col)) \<and>
     length cond = batch \<and> length mask_rows = batch \<and> length category_id_in_col = batch \<and>
     (\<forall>i<batch.
        length (cond ! i) = n_categories s \<and>
        length (mask_rows ! i) = n_discrete_columns s \<and>
        category_id_in_col ! i < discrete_column_n_category s ! (choice i) \<and>
        discrete_column_cond_st s ! (choice i) + category_id_in_col ! i < n_categories s \<and>
        (\<forall>j<n_categories s.
           cond ! i ! j =
             (if j = discrete_column_cond_st s ! (choice i) + category_id_in_col ! i
              then 1 else 0)) \<and>
        (\<forall>j<n_discrete_columns s. mask_rows ! i ! j = (if j = choice i then 1 else 0)))"
proof -
  note f = init_facts[OF assms(1)]
  let ?N = "n_discrete_columns s"
  let ?ids = "map choice [0..<batch]"
  let ?cat = "map (\<lambda>i. choice_index ops (discrete_column_category_prob s ! (?ids ! i)) (rand i))
                [0..<length ?ids]"
  let ?cid = "map (\<lambda>i. discrete_column_cond_st s ! (?ids ! i) + ?cat ! i) [0..<batch]"
  let ?mask = "map (\<lambda>i. (replicate ?N (0::real))[?ids ! i := 1]) [0..<batch]"
  let ?cond = "map (\<lambda>i. (replicate (n_categories s) (0::real))[?cid ! i := 1]) [0..<batch]"
  have ids: "\<forall>i<length ?ids. ?ids ! i < ?N" using assms(4) by simp
  have W: "0 < category_prob_width s"
    using assms(2) assms(3) prob_row(3)[OF assms(1), of 0] by fastforce
  have m: "set_ones batch ?N ?ids = Inr ?mask"
    by (rule set_ones_eval) (use assms(4) in simp_all)
  have r: "random_choice_prob_index ops s ?ids rand = Inr ?cat"
    by (rule random_choice_prob_index_eval[OF assms(1) ids W])
  have cst: "\<not> list_ex (\<lambda>c. length (discrete_column_cond_st s) \<le> c) ?ids"
  proof
    assume "list_ex (\<lambda>c. length (discrete_column_cond_st s) \<le> c) ?ids"
    then obtain i where "i < length ?ids" "length (discrete_column_cond_st s) \<le> ?ids ! i"
      by (auto simp: list_ex_iff in_set_conv_nth)
    with ids show False by (auto simp: f(4) f(8))
  qed
  have cat: "?cat ! i < discrete_column_n_category s ! (choice i)" if i: "i < batch" for i
  proof -
    from i assms(4) have c: "choice i < ?N" by simp
    with assms(3) have pos: "0 < discrete_column_n_category s ! (choice i)" by simp
    let ?cp = "category_prob_of ops log_frequency (category_freq ops d (matrix_starts output_info 0 ! choice i)
              (matrix_starts output_info 0 ! choice i + discrete_column_n_category s ! choice i))"
    have "choice_index ops (?cp @ replicate (category_prob_width s
              - discrete_column_n_category s ! choice i) (Fin 0)) (rand i) < length ?cp"
      by (rule choice_index_in_range) (use pos prob_row(2)[OF assms(1) c] in simp)
    then show ?thesis
      using i prob_row(1)[OF assms(1) c] prob_row(2)[OF assms(1) c] by simp
  qed
  have cid: "?cid ! i < n_categories s" if i: "i < batch" for i
  proof -
    from i assms(4) have c: "choice i < length (discrete_dims output_info)" by (simp add: f(8))
    from take_sum_bound[OF c] cat[OF i] f(10)[OF c] show ?thesis
      using i by (simp add: f(5) f(9))
  qed
  have cn: "set_ones batch (n_categories s) ?cid = Inr ?cond"
    by (rule set_ones_eval) (use cid in simp_all)
  have res: "sample_condvec ops s batch choice rand = Inr (Some (?cond, ?mask, ?ids, ?cat))"
    using assms(2) m r cst cn by (simp add: sample_condvec_def Let_def)
  have each: "length (?cond ! i) = n_categories s \<and>
        length (?mask ! i) = n_discrete_columns s \<and>
        ?cat ! i < discrete_column_n_category s ! (choice i) \<and>
        discrete_column_cond_st s ! (choice i) + ?cat ! i < n_categories s \<and>
        (\<forall>j<n_categories s.
           ?cond ! i ! j =
             (if j = discrete_column_cond_st s ! (choice i) + ?cat ! i then 1 else 0)) \<and>
        (\<forall>j<n_discrete_columns s. ?mask ! i ! j = (if j = choice i then 1 else 0))"
    if i: "i < batch" for i
  proof -
    have c: "choice i < ?N" using i assms(4) by simp
    have k: "?cid ! i = discrete_column_cond_st s ! (choice i) + ?cat ! i" using i by simp
    have kb: "discrete_column_cond_st s ! (choice i) + ?cat ! i < n_categories s"
      using cid[OF i] k by simp
    have 1: "length (?cond ! i) = n_categories s" using i by simp
    have 2: "length (?mask ! i) = ?N" using i by simp
    have 3: "\<forall>j<n_categories s. ?cond ! i ! j =
             (if j = discrete_column_cond_st s ! (choice i) + ?cat ! i then 1 else 0)"
    proof (intro allI impI)
      fix j assume j: "j < n_categories s"
      have "?cond ! i = (replicate (n_categories s) (0::real))
               [discrete_column_cond_st s ! (choice i) + ?cat ! i := 1]"
        using i k by simp
      then show "?cond ! i ! j =
             (if j = discrete_column_cond_st s ! (choice i) + ?cat ! i then 1 else 0)"
        using one_hot_nth[OF kb j] by simp
    qed
    have 4: "\<forall>j<?N. ?mask ! i ! j = (if j = choice i then 1 else 0)"
    proof (intro allI impI)
      fix j assume j: "j < ?N"
      have "?mask ! i = (replicate ?N (0::real))[choice i := 1]" using i by simp
      then show "?mask ! i ! j = (if j = choice i then 1 else 0)"
        using one_hot_nth[OF c j] by simp
    qed
    from 1 2 cat[OF i] kb 3 4 show ?thesis by blast
  qed
  have lens: "length ?cond = batch \<and> length ?mask = batch \<and> length ?cat = batch" by simp
  from res lens each show ?thesis by blast
qed

theorem sample_condvec_one_hot_witness:
  "0 < n_discrete_columns ex_sampler \<and>
   0 < discrete_column_n_category ex_sampler ! 0 \<and>
   0 < discrete_column_n_category ex_sampler ! 1 \<and>
   sample_condvec exact_ops ex_sampler 2 (\<lambda>i. i) (\<lambda>i. 7 / 10)
     = Inr (Some ([[0, 1, 0, 0], [0, 0, 0, 1]], [[1, 0], [0, 1]], [0, 1], [1, 1]))"
proof -
  have a: "0 < n_discrete_columns ex_sampler" by (simp add: eval_defs)
  have b: "\<forall>c<n_discrete_columns ex_sampler. 0 < discrete_column_n_category ex_sampler ! c"
    by (simp add: eval_defs All_less_Suc)
  have c: "\<forall>i<2. (\<lambda>i. i) i < n_discrete_columns ex_sampler"
    by (simp add: eval_defs)
  from sample_condvec_one_hot[OF ex_init a b c, of "\<lambda>i. 7 / 10"]
  show ?thesis by (simp add: eval_defs)
qed

text \<open>
  C4 as stated fails on a sampler with a discrete column of no category: drawing that
  column, the categorical draw returns 0 and the position \<open>cond_start + 0\<close> lies past the
  conditioning vector, so the call raises instead of returning.
\<close>

theorem sample_condvec_zero_category_column:
  "init exact_ops ex_data_narrow ex_layout_narrow False = Inr ex_sampler_narrow \<and>
   0 < n_discrete_columns ex_sampler_narrow \<and>
   sample_condvec exact_ops ex_sampler_narrow 1 (\<lambda>i. 1) (\<lambda>i. 7 / 10) = Inl IndexError"
  by (simp add: eval_defs)

text \<open>
  C5 (as amended). A conditioned call with equal-length \<open>col\<close> and \<open>opt\<close>, every pair
  naming a category of a discrete column that some training row has, and every draw a
  position among the training rows with that category, returns exactly \<open>len(col)\<close> rows.
  The row index of \<open>(col[i], opt[i])\<close> lists the training rows whose entry at category
  \<open>opt[i]\<close> of column \<open>col[i]\<close>'s one-hot block is not zero; row \<open>i\<close> of the result is the
  training row the draw picks from it, so its entry at that position is not zero; and if
  that block of the returned row is one-hot, decoding it yields exactly \<open>opt[i]\<close>. With
  \<open>col = None\<close> and every draw a row number of the training matrix, the result is the \<open>n\<close>
  training rows drawn; if \<open>n\<close> is positive and the training matrix has no row, the call
  raises.
\<close>

theorem sample_data_conformance:
  assumes "init ops d output_info log_frequency = Inr s"
  shows "(length col = length opt \<and>
          (\<forall>i<length col. col ! i < length (discrete_dims output_info) \<and>
             opt ! i < discrete_dims output_info ! (col ! i) \<and>
             pick i < length (rows_with d (matrix_starts output_info 0 ! (col ! i) + opt ! i))) \<longrightarrow>
          (\<exists>rows. sample_data s n (Some col) opt pick = Inr rows \<and>
             length rows = length col \<and>
             (\<forall>i<length col. \<exists>r.
                rid_by_cat_cols s ! (col ! i) ! (opt ! i) =
                  rows_with d (matrix_starts output_info 0 ! (col ! i) + opt ! i) \<and>
                r = rows_with d (matrix_starts output_info 0 ! (col ! i) + opt ! i) ! pick i \<and>
                r < nrows d \<and> rows ! i = row_of d r \<and>
                cell d r (matrix_starts output_info 0 ! (col ! i) + opt ! i) \<noteq> 0 \<and>
                rows ! i ! (matrix_starts output_info 0 ! (col ! i) + opt ! i) \<noteq> 0 \<and>
                block_of (rows ! i) (matrix_starts output_info 0 ! (col ! i))
                    (discrete_dims output_info ! (col ! i)) ! (opt ! i) \<noteq> 0 \<and>
                (is_one_hot (block_of (rows ! i) (matrix_starts output_info 0 ! (col ! i))
                               (discrete_dims output_info ! (col ! i))) \<longrightarrow>
                 decode_block (rows ! i) (matrix_starts output_info 0 ! (col ! i))
                    (discrete_dims output_info ! (col ! i)) = Inr (opt ! i))))) \<and>
         ((\<forall>i<n. pick_row i < nrows d) \<longrightarrow>
            sample_data s n None opt pick_row = Inr (map (\<lambda>i. row_of d (pick_row i)) [0..<n])) \<and>
         (0 < n \<and> nrows d = 0 \<longrightarrow> sample_data s n None opt pick_row = Inl ValueError)"
proof (intro conjI impI)
  note f = init_facts[OF assms]
  {
    assume "0 < n \<and> nrows d = 0"
    then show "sample_data s n None opt pick_row = Inl ValueError"
      by (simp add: sample_data_def f(1))
  }
  {
    assume p: "\<forall>i<n. pick_row i < nrows d"
    have nr: "\<not> (0 < n \<and> nrows d = 0)"
    proof
      assume "0 < n \<and> nrows d = 0"
      with p show False by auto
    qed
    have "\<not> list_ex (\<lambda>r. nrows d \<le> r) (map pick_row [0..<n])"
      using p by (auto simp: list_ex_iff)
    then show "sample_data s n None opt pick_row = Inr (map (\<lambda>i. row_of d (pick_row i)) [0..<n])"
      using nr by (simp add: sample_data_def take_rows_def f(1) comp_def)
  }
  {
    let ?ms = "\<lambda>i. matrix_starts output_info 0 ! (col ! i)"
    let ?dim = "\<lambda>i. discrete_dims output_info ! (col ! i)"
    let ?pos = "\<lambda>i. ?ms i + opt ! i"
    let ?rid = "\<lambda>i. rid_by_cat_cols s ! (col ! i) ! (opt ! i)"
    assume h: "length col = length opt \<and>
          (\<forall>i<length col. col ! i < length (discrete_dims output_info) \<and>
             opt ! i < discrete_dims output_info ! (col ! i) \<and>
             pick i < length (rows_with d (?pos i)))"
    then have eq: "length col = length opt" by simp
    have c: "col ! i < n_discrete_columns s"
      and o: "opt ! i < discrete_column_n_category s ! (col ! i)"
      and pk: "pick i < length (rows_with d (?pos i))" if "i < length col" for i
      using h that by (simp_all add: f(5) f(8))
    have rid: "?rid i = rows_with d (?pos i)" if "i < length col" for i
      by (rule rid_nth(1)[OF assms c[OF that] o[OF that]])
    have mem: "rows_with d (?pos i) ! pick i \<in> set (rows_with d (?pos i))"
      if "i < length col" for i
      using pk[OF that] by simp
    have ok: "list_all (\<lambda>(c, opt). c < length (rid_by_cat_cols s)
               \<and> opt < length (rid_by_cat_cols s ! c) \<and> rid_by_cat_cols s ! c ! opt \<noteq> [])
               (zip col opt)"
      unfolding list_all_iff
    proof
      fix p assume "p \<in> set (zip col opt)"
      then obtain i where i: "i < length col" and p: "p = (col ! i, opt ! i)"
        using eq by (auto simp: set_zip)
      from pk[OF i] have "rows_with d (?pos i) \<noteq> []" by auto
      then have "?rid i \<noteq> []" using rid[OF i] by simp
      then show "case p of (c, opt) \<Rightarrow> c < length (rid_by_cat_cols s)
               \<and> opt < length (rid_by_cat_cols s ! c) \<and> rid_by_cat_cols s ! c ! opt \<noteq> []"
        using rid_nth(2,3)[OF assms c[OF i] o[OF i]] by (simp add: p)
    qed
    let ?idx = "map (\<lambda>i. ?rid i ! pick i) [0..<length col]"
    have loop: "sample_data_loop s pick (zip col opt) 0 [] = Inr ?idx"
      using sample_data_loop_Inr[OF ok, of pick 0 "[]"] eq by simp
    have inrange: "\<not> list_ex (\<lambda>r. nrows d \<le> r) ?idx"
    proof
      assume "list_ex (\<lambda>r. nrows d \<le> r) ?idx"
      then obtain i where i: "i < length col" and b: "nrows d \<le> ?rid i ! pick i"
        by (auto simp: list_ex_iff)
      from mem[OF i] have "rows_with d (?pos i) ! pick i < nrows d"
        by (simp add: rows_with_def)
      with b rid[OF i] show False by simp
    qed
    have res: "sample_data s n (Some col) opt pick = Inr (map (row_of d) ?idx)"
      using loop inrange by (simp add: sample_data_def take_rows_def f(1))
    have each: "\<exists>r. ?rid i = rows_with d (?pos i) \<and>
               r = rows_with d (?pos i) ! pick i \<and>
               r < nrows d \<and> map (row_of d) ?idx ! i = row_of d r \<and>
               cell d r (?pos i) \<noteq> 0 \<and> map (row_of d) ?idx ! i ! (?pos i) \<noteq> 0 \<and>
               block_of (map (row_of d) ?idx ! i) (?ms i) (?dim i) ! (opt ! i) \<noteq> 0 \<and>
               (is_one_hot (block_of (map (row_of d) ?idx ! i) (?ms i) (?dim i)) \<longrightarrow>
                decode_block (map (row_of d) ?idx ! i) (?ms i) (?dim i) = Inr (opt ! i))"
      if i: "i < length col" for i
    proof -
      let ?r = "rows_with d (?pos i) ! pick i"
      have b: "?pos i < ncols d" by (rule rid_nth(4)[OF assms c[OF i] o[OF i]])
      have w: "?ms i + ?dim i \<le> ncols d"
        using prob_row(5)[OF assms c[OF i]] by (simp add: f(5))
      have od: "opt ! i < ?dim i" using o[OF i] by (simp add: f(5))
      from mem[OF i] have r: "?r < nrows d" and nz: "cell d ?r (?pos i) \<noteq> 0"
        by (simp_all add: rows_with_def)
      have ri: "map (row_of d) ?idx ! i = row_of d ?r" using i rid[OF i] by simp
      have lb: "length (block_of (row_of d ?r) (?ms i) (?dim i)) = ?dim i"
        using w by (simp add: block_of_def row_of_def)
      have bn: "block_of (row_of d ?r) (?ms i) (?dim i) ! (opt ! i) = cell d ?r (?pos i)"
        using w od b by (simp add: block_of_def row_of_def)
      have dec: "decode_block (row_of d ?r) (?ms i) (?dim i) = Inr (opt ! i)"
        if oh: "is_one_hot (block_of (row_of d ?r) (?ms i) (?dim i))"
        unfolding decode_block_def
      proof (rule one_hot_decode[OF oh])
        show "opt ! i < length (block_of (row_of d ?r) (?ms i) (?dim i))" using lb od by simp
        show "block_of (row_of d ?r) (?ms i) (?dim i) ! (opt ! i) \<noteq> 0" using bn nz by simp
      qed
      have rp: "row_of d ?r ! (?pos i) \<noteq> 0" using nz b by (simp add: row_of_def)
      show ?thesis
        unfolding ri using rid[OF i] r nz rp bn dec by simp
    qed
    show "\<exists>rows. sample_data s n (Some col) opt pick = Inr rows \<and>
             length rows = length col \<and>
             (\<forall>i<length col. \<exists>r.
                ?rid i = rows_with d (?pos i) \<and>
                r = rows_with d (?pos i) ! pick i \<and>
                r < nrows d \<and> rows ! i = row_of d r \<and>
                cell d r (?pos i) \<noteq> 0 \<and>
                rows ! i ! (?pos i) \<noteq> 0 \<and>
                block_of (rows ! i) (?ms i) (?dim i) ! (opt ! i) \<noteq> 0 \<and>
                (is_one_hot (block_of (rows ! i) (?ms i) (?dim i)) \<longrightarrow>
                 decode_block (rows ! i) (?ms i) (?dim i) = Inr (opt ! i)))"
    proof (intro exI conjI)
      show "sample_data s n (Some col) opt pick = Inr (map (row_of d) ?idx)" by (rule res)
      show "length (map (row_of d) ?idx) = length col" by simp
      show "\<forall>i<length col. \<exists>r.
                ?rid i = rows_with d (?pos i) \<and>
                r = rows_with d (?pos i) ! pick i \<and>
                r < nrows d \<and> map (row_of d) ?idx ! i = row_of d r \<and>
                cell d r (?pos i) \<noteq> 0 \<and>
                map (row_of d) ?idx ! i ! (?pos i) \<noteq> 0 \<and>
                block_of (map (row_of d) ?idx ! i) (?ms i) (?dim i) ! (opt ! i) \<noteq> 0 \<and>
                (is_one_hot (block_of (map (row_of d) ?idx ! i) (?ms i) (?dim i)) \<longrightarrow>
                 decode_block (map (row_of d) ?idx ! i) (?ms i) (?dim i) = Inr (opt ! i))"
        using each by blast
    qed
  }
qed

theorem sample_data_conformance_witness:
  "init exact_ops ex_data ex_layout False = Inr ex_sampler \<and>
   length [0, 1 :: nat] = length [1, 0 :: nat] \<and>
   rows_with ex_data (matrix_starts ex_layout 0 ! 0 + 1) = [1] \<and>
   rows_with ex_data (matrix_starts ex_layout 0 ! 1 + 0) = [1] \<and>
   sample_data ex_sampler 3 (Some [0, 1]) [1, 0] (\<lambda>i. 0) = Inr [[0, 1, 1, 0], [0, 1, 1, 0]] \<and>
   is_one_hot (block_of [0, 1, 1, 0] (matrix_starts ex_layout 0 ! 0) (discrete_dims ex_layout ! 0)) \<and>
   decode_block [0, 1, 1, 0] (matrix_starts ex_layout 0 ! 0) (discrete_dims ex_layout ! 0) = Inr 1 \<and>
   is_one_hot (block_of [0, 1, 1, 0] (matrix_starts ex_layout 0 ! 1) (discrete_dims ex_layout ! 1)) \<and>
   decode_block [0, 1, 1, 0] (matrix_starts ex_layout 0 ! 1) (discrete_dims ex_layout ! 1) = Inr 0 \<and>
   sample_data ex_sampler 3 None [1, 0] (\<lambda>i. 1) = Inr [[0, 1, 1, 0], [0, 1, 1, 0], [0, 1, 1, 0]]"
proof -
  have a: "length [0, 1 :: nat] = length [1, 0 :: nat] \<and>
          (\<forall>i<length [0, 1 :: nat]. [0, 1] ! i < length (discrete_dims ex_layout) \<and>
             [1, 0] ! i < discrete_dims ex_layout ! ([0, 1] ! i) \<and>
             (\<lambda>i. 0) i < length (rows_with ex_data (matrix_starts ex_layout 0 ! ([0, 1] ! i) + [1, 0] ! i)))"
    by (simp add: eval_defs All_less_Suc)
  have c: "\<forall>i<3. (\<lambda>i. 1) i < nrows ex_data"
    by (simp add: eval_defs)
  note t = sample_data_conformance[OF ex_init, of "[0, 1]" "[1, 0]" "\<lambda>i. 0" 3 "\<lambda>i. 1"]
  from t a have "\<exists>rows. sample_data ex_sampler 3 (Some [0, 1]) [1, 0] (\<lambda>i. 0) = Inr rows \<and>
      length rows = length [0, 1 :: nat]" by blast
  moreover from t c have "sample_data ex_sampler 3 None [1, 0] (\<lambda>i. 1)
      = Inr (map (\<lambda>i. row_of ex_data ((\<lambda>i. 1) i)) [0..<3])" by blast
  ultimately show ?thesis using ex_init by (simp add: eval_defs)
qed

text \<open>
  C5 as stated fails on a training row whose block for the conditioned column is not
  one-hot: the row with both category entries set is in the row index of category 1, it
  is returned for the pair \<open>(0, 1)\<close>, and decoding its block yields category 0. It fails
  with \<open>col = None\<close> when the training matrix has no row: a call for two rows raises.
\<close>

theorem sample_data_decoding_not_exact:
  "init exact_ops ex_data_multi_hot [[softmax_span 2]] False = Inr ex_sampler_multi_hot \<and>
   length [0 :: nat] = length [1 :: nat] \<and>
   rid_by_cat_cols ex_sampler_multi_hot ! 0 ! 1 = [0, 1, 2] \<and>
   sample_data ex_sampler_multi_hot 1 (Some [0]) [1] (\<lambda>i. 0) = Inr [[1, 1]] \<and>
   decode_block [1, 1] 0 2 = Inr 0 \<and>
   init exact_ops ex_data_empty [[softmax_span 2]] False = Inr ex_sampler_empty \<and>
   sample_data ex_sampler_empty 2 None [] (\<lambda>i. 0) = Inl ValueError"
  by (simp add: eval_defs)

text \<open>
  C6 (as amended). For every constructed sampler, every vector of discrete-column ids
  below \<open>n_discrete_columns\<close> and every vector of draws in \<open>[0, 1)\<close>, whatever the
  floating-point arithmetic, the categorical draw behaves as follows at batch element
  \<open>i\<close>. If some entry of the cumulative sum of the selected column's stored probability
  row exceeds the draw, the call returns and the index is that of the first such entry.
  If the row has an entry and none of its cumulative sums exceeds the draw, the index
  returned is 0. If the cumulative sum reaches 1 at the column's last true category, the
  index is that of the first exceeding entry and is below the column's category count; in
  exact arithmetic this is the case when the stored row sums to 1 over the true category
  range. For any column with a category the index is below the column's category count:
  a padded slot is never selected.
\<close>

theorem random_choice_prob_index_inverse_cdf:
  assumes "init ops d output_info log_frequency = Inr s"
    and "\<forall>k<length ids. ids ! k < n_discrete_columns s"
    and "\<forall>k<length ids. 0 \<le> rand k \<and> rand k < 1"
    and "i < length ids"
  shows "((\<exists>j<category_prob_width s.
             np_gt (cumsum ops (discrete_column_category_prob s ! (ids ! i)) ! j) (rand i)) \<longrightarrow>
          (\<exists>out. random_choice_prob_index ops s ids rand = Inr out \<and> length out = length ids \<and>
             out ! i < category_prob_width s \<and>
             np_gt (cumsum ops (discrete_column_category_prob s ! (ids ! i)) ! (out ! i)) (rand i) \<and>
             (\<forall>j<out ! i.
                \<not> np_gt (cumsum ops (discrete_column_category_prob s ! (ids ! i)) ! j) (rand i)))) \<and>
         (0 < category_prob_width s \<and>
          (\<forall>j<category_prob_width s.
             \<not> np_gt (cumsum ops (discrete_column_category_prob s ! (ids ! i)) ! j) (rand i)) \<longrightarrow>
          (\<exists>out. random_choice_prob_index ops s ids rand = Inr out \<and> length out = length ids \<and>
             out ! i = 0)) \<and>
         (0 < discrete_column_n_category s ! (ids ! i) \<and>
          cumsum ops (discrete_column_category_prob s ! (ids ! i))
            ! (discrete_column_n_category s ! (ids ! i) - 1) = Fin 1 \<longrightarrow>
          (\<exists>out. random_choice_prob_index ops s ids rand = Inr out \<and> length out = length ids \<and>
             out ! i < discrete_column_n_category s ! (ids ! i) \<and>
             np_gt (cumsum ops (discrete_column_category_prob s ! (ids ! i)) ! (out ! i)) (rand i) \<and>
             (\<forall>j<out ! i.
                \<not> np_gt (cumsum ops (discrete_column_category_prob s ! (ids ! i)) ! j) (rand i)))) \<and>
         (ops = exact_ops \<and>
          fl_sum exact_ops (take (discrete_column_n_category s ! (ids ! i))
                    (discrete_column_category_prob s ! (ids ! i))) = Fin 1 \<longrightarrow>
          0 < discrete_column_n_category s ! (ids ! i) \<and>
          cumsum ops (discrete_column_category_prob s ! (ids ! i))
            ! (discrete_column_n_category s ! (ids ! i) - 1) = Fin 1) \<and>
         (0 < discrete_column_n_category s ! (ids ! i) \<longrightarrow>
          (\<exists>out. random_choice_prob_index ops s ids rand = Inr out \<and> length out = length ids \<and>
             out ! i < discrete_column_n_category s ! (ids ! i)))"
proof (intro conjI impI)
  let ?row = "discrete_column_category_prob s ! (ids ! i)"
  let ?n = "discrete_column_n_category s ! (ids ! i)"
  let ?W = "category_prob_width s"
  let ?cp = "category_prob_of ops log_frequency
               (category_freq ops d (matrix_starts output_info 0 ! (ids ! i))
                  (matrix_starts output_info 0 ! (ids ! i) + ?n))"
  let ?out = "map (\<lambda>k. choice_index ops (discrete_column_category_prob s ! (ids ! k)) (rand k))
                [0..<length ids]"
  have c: "ids ! i < n_discrete_columns s" using assms(2,4) by simp
  have len: "length ?row = ?W" by (rule prob_row(4)[OF assms(1) c])
  have oi: "?out ! i = choice_index ops ?row (rand i)" using assms(4) by simp
  have row: "?row = ?cp @ replicate (?W - ?n) (Fin 0)" by (rule prob_row(1)[OF assms(1) c])
  have lcp: "length ?cp = ?n" by (rule prob_row(2)[OF assms(1) c])
  have nW: "?n \<le> ?W" by (rule prob_row(3)[OF assms(1) c])
  have first: "\<exists>out. random_choice_prob_index ops s ids rand = Inr out \<and>
             length out = length ids \<and> out ! i \<le> j \<and>
             np_gt (cumsum ops ?row ! (out ! i)) (rand i) \<and>
             (\<forall>j<out ! i. \<not> np_gt (cumsum ops ?row ! j) (rand i))"
    if j: "j < ?W" and g: "np_gt (cumsum ops ?row ! j) (rand i)" for j
  proof -
    from j have W: "0 < ?W" by simp
    have r: "random_choice_prob_index ops s ids rand = Inr ?out"
      by (rule random_choice_prob_index_eval[OF assms(1) assms(2) W])
    have jl: "j < length ?row" using j len by simp
    note p = choice_index_first[OF jl g]
    have "?out ! i \<le> j" using p(1) oi by simp
    moreover have "np_gt (cumsum ops ?row ! (?out ! i)) (rand i)" using p(2) oi by simp
    moreover have "\<forall>j<?out ! i. \<not> np_gt (cumsum ops ?row ! j) (rand i)" using p(3) oi by simp
    ultimately show ?thesis using r by simp
  qed
  {
    assume "\<exists>j<?W. np_gt (cumsum ops ?row ! j) (rand i)"
    then obtain j where j: "j < ?W" and g: "np_gt (cumsum ops ?row ! j) (rand i)"
      by blast
    from first[OF j g] obtain out where o: "random_choice_prob_index ops s ids rand = Inr out"
      "length out = length ids" "out ! i \<le> j"
      "np_gt (cumsum ops ?row ! (out ! i)) (rand i)"
      "\<forall>j<out ! i. \<not> np_gt (cumsum ops ?row ! j) (rand i)" by blast
    from o(3) j have "out ! i < ?W" by simp
    with o show "\<exists>out. random_choice_prob_index ops s ids rand = Inr out \<and>
             length out = length ids \<and> out ! i < ?W \<and>
             np_gt (cumsum ops ?row ! (out ! i)) (rand i) \<and>
             (\<forall>j<out ! i. \<not> np_gt (cumsum ops ?row ! j) (rand i))"
      by blast
  }
  {
    assume none: "0 < ?W \<and> (\<forall>j<?W. \<not> np_gt (cumsum ops ?row ! j) (rand i))"
    have r: "random_choice_prob_index ops s ids rand = Inr ?out"
      using random_choice_prob_index_eval[OF assms(1) assms(2)] none by blast
    have "choice_index ops ?row (rand i) = 0"
      by (rule choice_index_none) (use none len in simp)
    then show "\<exists>out. random_choice_prob_index ops s ids rand = Inr out \<and>
             length out = length ids \<and> out ! i = 0"
      using r oi by simp
  }
  {
    assume one: "0 < ?n \<and> cumsum ops ?row ! (?n - 1) = Fin 1"
    then have npos: "0 < ?n" and c1: "cumsum ops ?row ! (?n - 1) = Fin 1" by simp_all
    have j: "?n - 1 < ?W" using npos nW by arith
    have "rand i < 1" using assms(3,4) by simp
    then have g: "np_gt (cumsum ops ?row ! (?n - 1)) (rand i)" using c1 by simp
    from first[OF j g] obtain out where o: "random_choice_prob_index ops s ids rand = Inr out"
      "length out = length ids" "out ! i \<le> ?n - 1"
      "np_gt (cumsum ops ?row ! (out ! i)) (rand i)"
      "\<forall>j<out ! i. \<not> np_gt (cumsum ops ?row ! j) (rand i)" by blast
    from o(3) npos have "out ! i < ?n" by arith
    with o show "\<exists>out. random_choice_prob_index ops s ids rand = Inr out \<and>
             length out = length ids \<and> out ! i < ?n \<and>
             np_gt (cumsum ops ?row ! (out ! i)) (rand i) \<and>
             (\<forall>j<out ! i. \<not> np_gt (cumsum ops ?row ! j) (rand i))"
      by blast
  }
  {
    assume ex: "ops = exact_ops \<and> fl_sum exact_ops (take ?n ?row) = Fin 1"
    then have e: "ops = exact_ops" and one: "fl_sum exact_ops (take ?n ?row) = Fin 1"
      by simp_all
    have tk: "take ?n ?row = ?cp" using lcp row by simp
    show npos: "0 < ?n"
    proof (rule ccontr)
      assume "\<not> 0 < ?n"
      then have "take ?n ?row = []" by simp
      with one show False by (simp add: exact_ops_def)
    qed
    then have ne: "?cp \<noteq> []" using lcp by auto
    have "cumsum ops (?cp @ replicate (?W - ?n) (Fin 0)) ! (?n - 1)
            = cumsum ops ?cp ! (length ?cp - 1)"
    proof (rule cumsum_padded_flat)
      show "0 < length ?cp" using lcp npos by simp
      show "length ?cp \<le> Suc (?n - 1)" using lcp by simp
      show "?n - 1 < length ?cp + (?W - ?n)" using lcp npos by simp
    qed
    then have "cumsum ops ?row ! (?n - 1) = cumsum ops ?cp ! (length ?cp - 1)"
      using row by simp
    also have "\<dots> = fl_sum exact_ops ?cp"
      using cumsum_exact_last[OF ne[unfolded e]] e by simp
    also have "\<dots> = Fin 1" using one tk by simp
    finally show "cumsum ops ?row ! (?n - 1) = Fin 1" .
  }
  {
    assume npos: "0 < ?n"
    have W: "0 < ?W" using npos nW by simp
    have r: "random_choice_prob_index ops s ids rand = Inr ?out"
      by (rule random_choice_prob_index_eval[OF assms(1) assms(2) W])
    have "choice_index ops (?cp @ replicate (?W - ?n) (Fin 0)) (rand i) < length ?cp"
      by (rule choice_index_in_range) (use lcp npos in simp)
    then have "?out ! i < ?n" using oi row lcp by simp
    then show "\<exists>out. random_choice_prob_index ops s ids rand = Inr out \<and>
             length out = length ids \<and> out ! i < ?n"
      using r by simp
  }
qed

theorem random_choice_prob_index_inverse_cdf_witness:
  "init exact_ops ex_data ex_layout False = Inr ex_sampler \<and>
   fl_sum exact_ops (take (discrete_column_n_category ex_sampler ! ([0, 1] ! 1))
             (discrete_column_category_prob ex_sampler ! ([0, 1] ! 1))) = Fin 1 \<and>
   cumsum exact_ops (discrete_column_category_prob ex_sampler ! ([0, 1] ! 1))
     ! (discrete_column_n_category ex_sampler ! ([0, 1] ! 1) - 1) = Fin 1 \<and>
   random_choice_prob_index exact_ops ex_sampler [0, 1] (\<lambda>i. 7 / 10) = Inr [1, 1] \<and>
   np_gt (cumsum exact_ops (discrete_column_category_prob ex_sampler ! 1) ! 1) (7 / 10) \<and>
   \<not> np_gt (cumsum exact_ops (discrete_column_category_prob ex_sampler ! 1) ! 0) (7 / 10)"
proof -
  have a: "\<forall>k<length [0, 1 :: nat]. [0, 1] ! k < n_discrete_columns ex_sampler"
    by (simp add: eval_defs All_less_Suc)
  have b: "\<forall>k<length [0, 1 :: nat]. (0::real) \<le> (\<lambda>i. 7 / 10) k \<and> (\<lambda>i. 7 / 10) k < (1::real)"
    by simp
  have c: "1 < length [0, 1 :: nat]" by simp
  have d: "fl_sum exact_ops (take (discrete_column_n_category ex_sampler ! ([0, 1] ! 1))
             (discrete_column_category_prob ex_sampler ! ([0, 1] ! 1))) = Fin 1"
    by (simp add: eval_defs)
  from random_choice_prob_index_inverse_cdf[OF ex_init a b c] d ex_init
  show ?thesis by (simp add: eval_defs)
qed

text \<open>
  C6 as stated fails when no entry of the cumulative sum exceeds the draw: the index
  returned is then 0, which is not the index of an exceeding entry. This happens for the
  sampler built from a training matrix without rows, whose stored probabilities are NaN.
  When the only discrete column has no category the stored rows are empty and the draw
  raises instead of returning an index.
\<close>

theorem random_choice_prob_index_no_exceeding_entry:
  "init exact_ops ex_data_empty [[softmax_span 2]] False = Inr ex_sampler_empty \<and>
   [0] ! 0 < n_discrete_columns ex_sampler_empty \<and>
   random_choice_prob_index exact_ops ex_sampler_empty [0] (\<lambda>i. 1 / 2) = Inr [0] \<and>
   \<not> np_gt (cumsum exact_ops (discrete_column_category_prob ex_sampler_empty ! 0) ! 0) (1 / 2) \<and>
   \<not> np_gt (cumsum exact_ops (discrete_column_category_prob ex_sampler_empty ! 0) ! 1) (1 / 2) \<and>
   init exact_ops ex_data_zero_width [[softmax_span 0]] False = Inr ex_sampler_zero_width \<and>
   [0] ! 0 < n_discrete_columns ex_sampler_zero_width \<and>
   random_choice_prob_index exact_ops ex_sampler_zero_width [0] (\<lambda>i. 1 / 2) = Inl ValueError"
  by (simp add: eval_defs)




text \<open>
  C8. If, for some index \<open>i\<close> of a conditioned call, no training row has category
  \<open>opt[i]\<close> in discrete column \<open>col[i]\<close>, the row-index set of that pair is empty and
  \<^verbatim>\<open>sample_data\<close> raises: it returns no rows.
\<close>

theorem sample_data_empty_category_raises:
  assumes "init ops d output_info log_frequency = Inr s"
    and "i < length col" and "i < length opt"
    and "col ! i < n_discrete_columns s"
    and "opt ! i < discrete_column_n_category s ! (col ! i)"
    and "\<forall>r<nrows d. cell d r (matrix_starts output_info 0 ! (col ! i) + opt ! i) = 0"
  shows "rid_by_cat_cols s ! (col ! i) ! (opt ! i) = [] \<and>
         (\<exists>e. sample_data s n (Some col) opt pick = Inl e)"
proof -
  have e: "rid_by_cat_cols s ! (col ! i) ! (opt ! i) = []"
    using rid_nth(1)[OF assms(1,4,5)] assms(6) by (simp add: rows_with_def filter_empty_conv)
  have "(col ! i, opt ! i) \<in> set (zip col opt)"
    using assms(2,3) by (auto simp: set_zip)
  then have "\<not> list_all (\<lambda>(c, opt). c < length (rid_by_cat_cols s)
             \<and> opt < length (rid_by_cat_cols s ! c) \<and> rid_by_cat_cols s ! c ! opt \<noteq> [])
             (zip col opt)"
    using e by (auto simp: list_all_iff)
  from sample_data_loop_Inl[OF this, of pick 0 "[]"] e show ?thesis
    by (auto simp: sample_data_def)
qed

theorem sample_data_empty_category_raises_witness:
  "init exact_ops ex_data_one_sided [[softmax_span 2]] False \<noteq> Inl IndexError \<and>
   (\<exists>s. init exact_ops ex_data_one_sided [[softmax_span 2]] False = Inr s \<and>
        rid_by_cat_cols s ! ([0] ! 0) ! ([1] ! 0) = [] \<and>
        (\<exists>e. sample_data s 1 (Some [0]) [1] (\<lambda>i. 0) = Inl e))"
proof -
  obtain s where s: "init exact_ops ex_data_one_sided [[softmax_span 2]] False = Inr s"
    by (simp add: eval_defs)
  have h: "\<forall>r<nrows ex_data_one_sided.
      cell ex_data_one_sided r (matrix_starts [[softmax_span 2]] 0 ! ([0] ! 0) + [1] ! 0) = 0"
    by (simp add: eval_defs All_less_Suc)
  have n: "[0] ! 0 < n_discrete_columns s"
    "[1] ! 0 < discrete_column_n_category s ! ([0] ! 0)"
    using s by (auto simp: eval_defs)
  from sample_data_empty_category_raises[OF s _ _ n h, of 1 "\<lambda>i. 0"]
  show ?thesis using s by simp
qed

text \<open>
  C9. For a layout with no discrete column and a matrix consistent with it, construction
  succeeds, every per-discrete-column array has length zero, \<^verbatim>\<open>sample_condvec\<close> and
  \<^verbatim>\<open>sample_original_condvec\<close> return \<^verbatim>\<open>None\<close> for every batch size and every draw, and
  \<^verbatim>\<open>dim_cond_vec\<close> returns 0.
\<close>

theorem no_discrete_columns_degenerate:
  assumes "filter is_discrete_column output_info = []"
    and "total_width output_info = ncols d"
  shows "\<exists>s. init ops d output_info log_frequency = Inr s \<and>
     discrete_column_matrix_st s = [] \<and> rid_by_cat_cols s = [] \<and>
     discrete_column_cond_st s = [] \<and> discrete_column_n_category s = [] \<and>
     discrete_column_category_prob s = [] \<and> n_discrete_columns s = 0 \<and>
     (\<forall>batch choice rand. sample_condvec ops s batch choice rand = Inr None) \<and>
     (\<forall>batch row_draw col_draw. sample_original_condvec s batch row_draw col_draw = Inr None) \<and>
     dim_cond_vec s = 0"
proof -
  from init_success[OF assms(2), where lf = log_frequency and ops = ops]
  obtain s where s: "init ops d output_info log_frequency = Inr s" by blast
  have dd: "discrete_dims output_info = []"
    using assms(1) by (simp add: discrete_dims_def)
  note f = init_facts[OF s]
  have "discrete_column_matrix_st s = []" using f(2) dd by simp
  moreover have "rid_by_cat_cols s = []" using f(3) dd by simp
  moreover have "discrete_column_cond_st s = []" using f(4) dd by simp
  moreover have "discrete_column_n_category s = []" using f(5) dd by simp
  moreover have "discrete_column_category_prob s = []" using f(6) dd by simp
  moreover have n: "n_discrete_columns s = 0" using f(8) dd by simp
  moreover have "\<forall>batch choice rand. sample_condvec ops s batch choice rand = Inr None"
    using n by (simp add: sample_condvec_def)
  moreover have "\<forall>batch row_draw col_draw.
      sample_original_condvec s batch row_draw col_draw = Inr None"
    using n by (simp add: sample_original_condvec_def)
  moreover have "dim_cond_vec s = 0" using f(9) dd by (simp add: dim_cond_vec_def)
  ultimately show ?thesis using s by blast
qed

theorem no_discrete_columns_degenerate_witness:
  "filter is_discrete_column [[tanh_span 1, softmax_span 2]] = [] \<and>
   total_width [[tanh_span 1, softmax_span 2]] = ncols (matrix_of_rows 3 [[1 / 2, 0, 1]]) \<and>
   (\<exists>s. init exact_ops (matrix_of_rows 3 [[1 / 2, 0, 1]]) [[tanh_span 1, softmax_span 2]] True = Inr s \<and>
        discrete_column_category_prob s = [] \<and>
        sample_condvec exact_ops s 3 (\<lambda>i. 0) (\<lambda>i. 0) = Inr None \<and>
        sample_original_condvec s 3 (\<lambda>i. 0) (\<lambda>i. 0) = Inr None \<and>
        dim_cond_vec s = 0)"
proof -
  have a: "filter is_discrete_column [[tanh_span 1, softmax_span 2]] = []"
    by (simp add: eval_defs)
  have b: "total_width [[tanh_span 1, softmax_span 2]]
             = ncols (matrix_of_rows 3 [[1 / 2, 0, 1]])"
    by (simp add: eval_defs)
  from no_discrete_columns_degenerate[OF a b, where log_frequency = True and ops = exact_ops]
  show ?thesis
    using a b by blast
qed

text \<open>
  C10. For every successfully constructed sampler the per-discrete-column array of matrix
  starts is the all-zero vector of length \<open>n_discrete_columns\<close>: the constructor allocates it
  and never assigns into it, so every read of a discrete column's matrix start yields 0,
  wherever that column's block lies in the encoded matrix.
\<close>

theorem matrix_st_all_zero:
  assumes "init ops d output_info log_frequency = Inr s"
  shows "discrete_column_matrix_st s = replicate (n_discrete_columns s) 0 \<and>
         n_discrete_columns s = length (filter is_discrete_column output_info) \<and>
         (\<forall>c<n_discrete_columns s. discrete_column_matrix_st s ! c = 0)"
  using init_facts(2)[OF assms] init_facts(8)[OF assms]
  by (simp add: discrete_dims_def)

theorem matrix_st_all_zero_witness:
  "\<exists>s. init exact_ops ex_data ex_layout False = Inr s \<and>
       discrete_column_matrix_st s = [0, 0] \<and>
       discrete_column_matrix_st s ! 1 = 0 \<and>
       matrix_starts ex_layout 0 = [0, 2]"
proof -
  have m: "matrix_starts ex_layout 0 = [0, 2]"
    by (simp add: eval_defs)
  from matrix_st_all_zero[OF ex_init] m show ?thesis
    using ex_init by (simp add: ex_sampler_def)
qed

end
